theory Spec2Isabelle
  imports Complex_Main "HOL-Library.Multiset"
begin

section \<open>The Python runtime the scripts rely on\<close>

text \<open>
  \<^verbatim>\<open>prepare_VisDrone.py\<close> and \<^verbatim>\<open>datasets_utils.py\<close> call into the Python
  standard library: the module-level generator of \<^verbatim>\<open>random\<close>, the constructors
  \<^verbatim>\<open>float\<close> and \<^verbatim>\<open>int\<close> on strings, binary64 arithmetic and the
  \<^verbatim>\<open>:.6f\<close> format.  None of that code belongs to the repository, so it is a
  parameter of the model: a record of the operations, over an arbitrary type \<open>'g\<close> of
  generator states.
  \<^item> \<open>py_seed s\<close> is the generator state that \<^verbatim>\<open>random.seed(s)\<close> installs;
  \<^item> \<open>py_randbelow g n\<close> is \<^verbatim>\<open>random._randbelow(n)\<close> run in state \<open>g\<close>: the number
    drawn and the state left behind;
  \<^item> \<open>py_float s\<close> and \<open>py_int s\<close> are \<^verbatim>\<open>float(s)\<close> and \<^verbatim>\<open>int(s)\<close>, with
    \<open>None\<close> for \<^verbatim>\<open>ValueError\<close>;
  \<^item> \<open>py_round\<close> rounds the exact result of one arithmetic operation to the float
    that Python stores;
  \<^item> \<open>py_fmt6 x\<close> is the text of \<^verbatim>\<open>f"{x:.6f}"\<close>.
  Floats are modelled by the real number they denote; infinities and NaN are outside
  the model.
\<close>

record 'g python =
  py_seed :: "int \<Rightarrow> 'g"
  py_randbelow :: "'g \<Rightarrow> nat \<Rightarrow> nat \<times> 'g"
  py_float :: "string \<Rightarrow> real option"
  py_int :: "string \<Rightarrow> int option"
  py_round :: "real \<Rightarrow> real"
  py_fmt6 :: "real \<Rightarrow> string"

datatype py_error =
    IndexError
  | KeyError string
  | FileNotFoundError string
  | RuntimeError string
  | ZeroDivisionError
  | SameFileError string

text \<open>
  The contract of \<^verbatim>\<open>_randbelow\<close> (its docstring: ``Return a random int in the range
  [0,n). Defined for n > 0'').
\<close>

definition randbelow_in_range :: "'g python \<Rightarrow> bool" where
  "randbelow_in_range P \<longleftrightarrow> (\<forall>g n. 0 < n \<longrightarrow> fst (py_randbelow P g n) < n)"

text \<open>
  The standard model of floating-point arithmetic: one operation is off by a relative
  error of at most \<open>2\<^sup>-\<^sup>5\<^sup>3\<close>, the unit roundoff of binary64.
\<close>

definition round_to_nearest :: "'g python \<Rightarrow> bool" where
  "round_to_nearest P \<longleftrightarrow> (\<forall>x. \<bar>py_round P x - x\<bar> \<le> \<bar>x\<bar> / 2 ^ 53)"

subsection \<open>A concrete runtime\<close>

text \<open>
  For evaluating the model on concrete inputs: the generator is the word stream of
  CPython's Mersenne Twister after \<^verbatim>\<open>random.seed(42)\<close>, of which the first twelve
  32-bit outputs are tabulated, and \<open>randbelow_words\<close> is
  \<^verbatim>\<open>Random._randbelow_with_getrandbits\<close> on that stream: with \<open>k\<close> the bit length of
  \<open>n\<close> it takes the top \<open>k\<close> bits of each word and returns the first value below
  \<open>n\<close>.  Past the end of the table it returns 0; no theorem below draws that far.
\<close>

definition mt19937_seed42 :: "nat list" where
  "mt19937_seed42 =
     [2746317213, 478163327, 107420369, 3184935163, 1181241943, 1051802512,
      958682846, 599310825, 3163119785, 440213415, 2906402157, 3181143731]"

fun bit_length :: "nat \<Rightarrow> nat" where
  "bit_length n = (if n = 0 then 0 else Suc (bit_length (n div 2)))"

declare bit_length.simps [simp del]

fun randbelow_words :: "nat list \<Rightarrow> nat \<Rightarrow> nat \<times> nat list" where
  "randbelow_words [] n = (0, [])"
| "randbelow_words (w # ws) n =
     (let r = w div 2 ^ (32 - bit_length n)
      in if r \<ge> n then randbelow_words ws n else (r, ws))"

text \<open>The value of an ASCII digit: code points 48 to 57.\<close>

definition digit_val :: "char \<Rightarrow> nat option" where
  "digit_val c =
     (let k = of_char c :: nat in if 48 \<le> k \<and> k \<le> 57 then Some (k - 48) else None)"

fun digits_val :: "nat \<Rightarrow> string \<Rightarrow> nat option" where
  "digits_val acc [] = Some acc"
| "digits_val acc (c # cs) =
     (case digit_val c of None \<Rightarrow> None | Some d \<Rightarrow> digits_val (10 * acc + d) cs)"

text \<open>
  Plain decimal literals, an optional sign and at least one digit: on these strings
  \<^verbatim>\<open>int\<close> and \<^verbatim>\<open>float\<close> succeed with the value computed here.  (Python accepts
  more: blanks around the literal, underscores, fractions and exponents for
  \<^verbatim>\<open>float\<close>.  The concrete runtime rejects those.)
\<close>

fun decimal_int :: "string \<Rightarrow> int option" where
  "decimal_int [] = None"
| "decimal_int (c # cs) =
     (if c = CHR ''-'' then (if cs = [] then None else map_option (\<lambda>n. - int n) (digits_val 0 cs))
      else if c = CHR ''+'' then (if cs = [] then None else map_option int (digits_val 0 cs))
      else map_option int (digits_val 0 (c # cs)))"

definition cpython42 :: "nat list python" where
  "cpython42 =
     \<lparr>py_seed = (\<lambda>s. if s = 42 then mt19937_seed42 else []),
      py_randbelow = randbelow_words,
      py_float = (\<lambda>s. map_option of_int (decimal_int s)),
      py_int = decimal_int,
      py_round = (\<lambda>x. x),
      py_fmt6 = (\<lambda>x. ''#'')\<rparr>"

section \<open>Partitioner\<close>

text \<open>
  \<^verbatim>\<open>random.shuffle(x)\<close>:
  \<^verbatim>\<open>
  for i in reversed(range(1, len(x))):
      j = randbelow(i + 1)
      x[i], x[j] = x[j], x[i]
  \<close>
  The loop counter runs from \<open>len(x) - 1\<close> down to 1.  An index outside the list
  raises \<^verbatim>\<open>IndexError\<close>.
\<close>

fun shuffle_loop :: "'g python \<Rightarrow> nat \<Rightarrow> 'g \<Rightarrow> 'a list \<Rightarrow> py_error + ('a list \<times> 'g)" where
  "shuffle_loop P 0 g x = Inr (x, g)"
| "shuffle_loop P (Suc k) g x =
     (let i = Suc k;
          (j, g') = py_randbelow P g (i + 1)
      in if i < length x \<and> j < length x
         then shuffle_loop P k g' (x[i := x ! j, j := x ! i])
         else Inl IndexError)"

definition shuffle :: "'g python \<Rightarrow> 'g \<Rightarrow> 'a list \<Rightarrow> py_error + ('a list \<times> 'g)" where
  "shuffle P g x = shuffle_loop P (length x - 1) g x"

text \<open>
  The extended slice \<^verbatim>\<open>files[start::step]\<close> for \<open>step \<ge> 1\<close>: drop \<open>start\<close>
  elements, keep one, drop \<open>step - 1\<close>, keep one, and so on.
\<close>

fun slice_from :: "'a list \<Rightarrow> nat \<Rightarrow> nat \<Rightarrow> 'a list" where
  "slice_from [] start step = []"
| "slice_from (x # xs) 0 step = x # slice_from xs (step - 1) step"
| "slice_from (x # xs) (Suc s) step = slice_from xs s step"

text \<open>\<^verbatim>\<open>str(n)\<close> for a natural number.\<close>

definition digit_char :: "nat \<Rightarrow> char" where
  "digit_char d = ''0123456789'' ! d"

fun str_nat :: "nat \<Rightarrow> string" where
  "str_nat n = (if n < 10 then [digit_char n] else str_nat (n div 10) @ [digit_char (n mod 10)])"

declare str_nat.simps [simp del]

definition str_int :: "int \<Rightarrow> string" where
  "str_int i = (if i < 0 then CHR ''-'' # str_nat (nat (- i)) else str_nat (nat i))"

text \<open>
  \<^verbatim>\<open>
  def split_files(files: list, nclients: int) -> dict:
      random.seed(42)
      random.shuffle(files)
      return {f'client{i + 1}': files[i::nclients] for i in range(nclients)}
  \<close>
  The function works on two pieces of state besides its result: the caller's list
  object \<^verbatim>\<open>files\<close>, which \<^verbatim>\<open>shuffle\<close> reorders in place, and the generator of
  the \<^verbatim>\<open>random\<close> module.  The model takes the generator state \<open>g\<close> on entry and
  returns the dictionary (as the list of its items, in insertion order), the list as
  it is left behind and the generator state on exit.  \<^verbatim>\<open>range(nclients)\<close> is empty
  for \<open>nclients \<le> 0\<close>, so the slice with step 0 is never taken.
\<close>

definition split_files ::
  "'g python \<Rightarrow> 'g \<Rightarrow> 'a list \<Rightarrow> int \<Rightarrow> py_error + ((string \<times> 'a list) list \<times> 'a list \<times> 'g)" where
  "split_files P g files nclients =
     (case shuffle P (py_seed P 42) files of
        Inl e \<Rightarrow> Inl e
      | Inr (files', g') \<Rightarrow>
          Inr (map (\<lambda>i. (''client'' @ str_nat (i + 1), slice_from files' i (nat nclients)))
                 [0..<nat nclients],
               files', g'))"

text \<open>
  Line 42 of \<^verbatim>\<open>process_split\<close>:
  \<^verbatim>\<open>split_map = split_files(img_files, nclients) if is_train else {'server': img_files}\<close>
\<close>

definition split_map ::
  "'g python \<Rightarrow> 'g \<Rightarrow> 'a list \<Rightarrow> int \<Rightarrow> bool \<Rightarrow>
     py_error + ((string \<times> 'a list) list \<times> 'a list \<times> 'g)" where
  "split_map P g img_files nclients is_train =
     (if is_train then split_files P g img_files nclients
      else Inr ([(''server'', img_files)], img_files, g))"

section \<open>Strings and paths\<close>

text \<open>
  \<^verbatim>\<open>str.strip()\<close> removes leading and trailing whitespace; among the ASCII characters
  Python counts the code points 9 to 13 and 28 to 32 as whitespace.
\<close>

definition is_space :: "char \<Rightarrow> bool" where
  "is_space c \<longleftrightarrow> (let k = of_char c :: nat in (9 \<le> k \<and> k \<le> 13) \<or> (28 \<le> k \<and> k \<le> 32))"

definition strip :: "string \<Rightarrow> string" where
  "strip s = rev (dropWhile is_space (rev (dropWhile is_space s)))"

text \<open>\<^verbatim>\<open>s.split(d)\<close> for a one-character separator: never an empty list.\<close>

fun split_on :: "char \<Rightarrow> string \<Rightarrow> string list" where
  "split_on d [] = [[]]"
| "split_on d (c # cs) =
     (if c = d then [] # split_on d cs
      else (case split_on d cs of [] \<Rightarrow> [[c]] | p # ps \<Rightarrow> (c # p) # ps))"

text \<open>
  \<^verbatim>\<open>s.replace(old, new)\<close> for a non-empty \<open>old\<close>: every occurrence, left to right,
  without overlap.
\<close>

function replace :: "string \<Rightarrow> string \<Rightarrow> string \<Rightarrow> string" where
  "replace old new s =
     (if s = [] \<or> old = [] then s
      else if take (length old) s = old then new @ replace old new (drop (length old) s)
      else hd s # replace old new (tl s))"
  by pat_completeness auto
termination
  by (relation "measure (\<lambda>(old, new, s). length s)") (auto simp: neq_Nil_conv)

declare replace.simps [simp del]

definition endswith :: "string \<Rightarrow> string \<Rightarrow> bool" where
  "endswith s suffix \<longleftrightarrow>
     length suffix \<le> length s \<and> drop (length s - length suffix) s = suffix"

text \<open>
  \<^verbatim>\<open>os.path.join(a, *p)\<close> of \<^verbatim>\<open>posixpath\<close>: a component that starts with a slash
  discards what precedes it; otherwise it is appended, after a slash unless the path
  so far is empty or ends with one.
\<close>

definition join_step :: "string \<Rightarrow> string \<Rightarrow> string" where
  "join_step path b =
     (if b \<noteq> [] \<and> hd b = CHR ''/'' then b
      else if path = [] \<or> last path = CHR ''/'' then path @ b
      else path @ ''/'' @ b)"

definition path_join :: "string \<Rightarrow> string list \<Rightarrow> string" where
  "path_join a p = foldl join_step a p"

section \<open>Distribution table\<close>

text \<open>
  The \<^verbatim>\<open>pandas.DataFrame\<close> of \<^verbatim>\<open>get_distribution_dataframe\<close>: its row labels, its
  column labels and its cells, addressed by labels as \<^verbatim>\<open>.loc\<close> does.  Row labels
  are taken to be distinct where a property depends on it.
\<close>

record dataframe =
  df_index :: "string list"
  df_columns :: "string list"
  df_cell :: "string \<Rightarrow> string \<Rightarrow> int"

text \<open>
  \<^verbatim>\<open>
  def get_distribution_dataframe(data: str, nclients: int) -> pd.DataFrame:
      columns = ['server']
      with open(data, 'r') as f:
          data_dict = yaml.load(f, Loader=yaml.SafeLoader)
      for k in range(1, nclients + 1):
          columns.append(f'client{k}')
      objects_distribution = pd.DataFrame(columns=columns, index=['Samples'] + data_dict['names'])
      objects_distribution.fillna(0, inplace=True)
      return objects_distribution
  \<close>
  The argument \<open>names\<close> is \<^verbatim>\<open>data_dict['names']\<close>, the class-name list read from
  the YAML file.
\<close>

definition get_distribution_dataframe :: "string list \<Rightarrow> int \<Rightarrow> dataframe" where
  "get_distribution_dataframe names nclients =
     \<lparr>df_index = ''Samples'' # names,
      df_columns = ''server'' # map (\<lambda>k. ''client'' @ str_nat k) [1..<nat (nclients + 1)],
      df_cell = (\<lambda>row col. 0)\<rparr>"

text \<open>\<^verbatim>\<open>df.loc[row, col] += 1\<close>; an unknown label raises \<^verbatim>\<open>KeyError\<close>.\<close>

definition loc_incr :: "dataframe \<Rightarrow> string \<Rightarrow> string \<Rightarrow> py_error + dataframe" where
  "loc_incr df row col =
     (if row \<notin> set (df_index df) then Inl (KeyError row)
      else if col \<notin> set (df_columns df) then Inl (KeyError col)
      else Inr (df\<lparr>df_cell := (df_cell df)(row := (df_cell df row)(col := df_cell df row col + 1))\<rparr>))"

section \<open>Annotation transformer\<close>

text \<open>
  \<^verbatim>\<open>
  def convert_bbox(bbox_left, bbox_top, bbox_right, bbox_bottom, img_width, img_height):
      x = (bbox_left + bbox_right) / 2 / img_width
      y = (bbox_top + bbox_bottom) / 2 / img_height
      w = (bbox_right - bbox_left) / img_width
      h = (bbox_bottom - bbox_top) / img_height
      return x, y, w, h
  \<close>
  Every operation rounds its result; dividing by zero raises.
\<close>

definition convert_bbox ::
  "'g python \<Rightarrow> real \<Rightarrow> real \<Rightarrow> real \<Rightarrow> real \<Rightarrow> int \<Rightarrow> int \<Rightarrow>
     py_error + (real \<times> real \<times> real \<times> real)" where
  "convert_bbox P bbox_left bbox_top bbox_right bbox_bottom img_width img_height =
     (if img_width = 0 \<or> img_height = 0 then Inl ZeroDivisionError
      else
        let x = py_round P (py_round P (py_round P (bbox_left + bbox_right) / 2) / of_int img_width);
            y = py_round P (py_round P (py_round P (bbox_top + bbox_bottom) / 2) / of_int img_height);
            w = py_round P (py_round P (bbox_right - bbox_left) / of_int img_width);
            h = py_round P (py_round P (bbox_bottom - bbox_top) / of_int img_height)
        in Inr (x, y, w, h))"

text \<open>
  Lines 70 to 83 of \<^verbatim>\<open>process_split\<close>: the fields of one line, or \<open>None\<close> where
  the loop says \<^verbatim>\<open>continue\<close>.
  \<^verbatim>\<open>
  parts = line.strip().split(',')
  if len(parts) < 8:
      continue
  try:
      x_min = float(parts[0])
      y_min = float(parts[1])
      w = float(parts[2])
      h = float(parts[3])
      cls_id = int(parts[5])
      status = int(parts[6])
  except (ValueError, IndexError) as e:
      continue
  \<close>
\<close>

definition parse_line :: "'g python \<Rightarrow> string \<Rightarrow> (real \<times> real \<times> real \<times> real \<times> int \<times> int) option" where
  "parse_line P line =
     (let parts = split_on CHR '','' (strip line) in
      if length parts < 8 then None
      else
        case py_float P (parts ! 0) of None \<Rightarrow> None | Some x_min \<Rightarrow>
        case py_float P (parts ! 1) of None \<Rightarrow> None | Some y_min \<Rightarrow>
        case py_float P (parts ! 2) of None \<Rightarrow> None | Some w \<Rightarrow>
        case py_float P (parts ! 3) of None \<Rightarrow> None | Some h \<Rightarrow>
        case py_int P (parts ! 5) of None \<Rightarrow> None | Some cls_id \<Rightarrow>
        case py_int P (parts ! 6) of None \<Rightarrow> None | Some status \<Rightarrow>
          Some (x_min, y_min, w, h, cls_id, status))"

text \<open>\<^verbatim>\<open>f"{cls_id - 1} {x:.6f} {y:.6f} {bw:.6f} {bh:.6f}\n"\<close>\<close>

definition yolo_line :: "'g python \<Rightarrow> int \<Rightarrow> real \<Rightarrow> real \<Rightarrow> real \<Rightarrow> real \<Rightarrow> string" where
  "yolo_line P cls_id x y bw bh =
     str_int (cls_id - 1) @ '' '' @ py_fmt6 P x @ '' '' @ py_fmt6 P y @ '' '' @ py_fmt6 P bw
       @ '' '' @ py_fmt6 P bh @ [CHR 0x0A]"

text \<open>
  The loop over the lines of one annotation file, lines 69 to 105.  Its state is the
  text written to the label file so far and the table; it ends with the exception that
  leaves it, if any.  \<^verbatim>\<open>dist_df.index[cls_id]\<close> raises \<^verbatim>\<open>IndexError\<close> past the last
  row.
\<close>

fun process_lines ::
  "'g python \<Rightarrow> string \<Rightarrow> string list \<Rightarrow> string list \<Rightarrow> dataframe \<Rightarrow>
     string list \<times> dataframe \<times> py_error option" where
  "process_lines P destination [] dst dist_df = (dst, dist_df, None)"
| "process_lines P destination (line # src) dst dist_df =
     (case parse_line P line of
        None \<Rightarrow> process_lines P destination src dst dist_df
      | Some (x_min, y_min, w, h, cls_id, status) \<Rightarrow>
          if status = 0 \<or> \<not> (1 \<le> cls_id \<and> cls_id \<le> 10)
          then process_lines P destination src dst dist_df
          else
            (case convert_bbox P x_min y_min (py_round P (x_min + w)) (py_round P (y_min + h))
                    1920 1080 of
               Inl e \<Rightarrow> (dst, dist_df, Some e)
             | Inr (x, y, bw, bh) \<Rightarrow>
                 let dst' = dst @ [yolo_line P cls_id x y bw bh] in
                 if length (df_index dist_df) \<le> nat cls_id then (dst', dist_df, Some IndexError)
                 else
                   let class_name = df_index dist_df ! nat cls_id in
                   (case loc_incr dist_df class_name destination of
                      Inl e \<Rightarrow> (dst', dist_df, Some e)
                    | Inr df1 \<Rightarrow>
                        (case loc_incr df1 ''Samples'' destination of
                           Inl e \<Rightarrow> (dst', df1, Some e)
                         | Inr df2 \<Rightarrow> process_lines P destination src dst' df2))))"

section \<open>One subset\<close>

text \<open>
  The file system is a map from paths to file contents, a content being the list of the
  file's lines; directories are not modelled (\<^verbatim>\<open>os.makedirs\<close> is taken to succeed).
  What \<^verbatim>\<open>process_split\<close> prints when it skips a file is kept in the list \<open>w_printed\<close>.
\<close>

datatype log_entry = Failed string py_error

record world =
  w_files :: "string \<rightharpoonup> string list"
  w_dist_df :: dataframe
  w_printed :: "log_entry list"

text \<open>
  The body of the loop over the files of a bucket, lines 50 to 110.
  \<^verbatim>\<open>shutil.copy\<close> raises when the source is missing and when source and
  destination are the same file; the \<^verbatim>\<open>with\<close> statement opens the annotation file
  first and creates or truncates the label file second, and closes both, whatever
  happens in between.  Every exception is caught, printed, and the loop goes on.
\<close>

definition process_file ::
  "'g python \<Rightarrow> string \<Rightarrow> string \<Rightarrow> string \<Rightarrow> string \<Rightarrow> string \<Rightarrow> world \<Rightarrow> world" where
  "process_file P img_dir ann_dir dst_dir destination img_file W =
     (let img_src = path_join img_dir [img_file];
          ann_src = path_join ann_dir [replace ''.jpg'' ''.txt'' img_file];
          img_dst = path_join dst_dir [destination, ''images'', img_file];
          label_dst = path_join dst_dir [destination, ''labels'', replace ''.jpg'' ''.txt'' img_file]
      in case w_files W img_src of
           None \<Rightarrow> W\<lparr>w_printed := w_printed W @ [Failed img_file (FileNotFoundError img_src)]\<rparr>
         | Some img \<Rightarrow>
             if img_src = img_dst
             then W\<lparr>w_printed := w_printed W @ [Failed img_file (SameFileError img_src)]\<rparr>
             else
               let fs1 = (w_files W)(img_dst \<mapsto> img) in
               (case fs1 ann_src of
                  None \<Rightarrow>
                    W\<lparr>w_files := fs1, w_printed := w_printed W @ [Failed img_file (FileNotFoundError ann_src)]\<rparr>
                | Some content \<Rightarrow>
                    let src = (if label_dst = ann_src then [] else content);
                        (dst, df', raised) = process_lines P destination src [] (w_dist_df W)
                    in W\<lparr>w_files := fs1(label_dst \<mapsto> dst), w_dist_df := df',
                         w_printed := (case raised of None \<Rightarrow> w_printed W
                                 | Some e \<Rightarrow> w_printed W @ [Failed img_file e])\<rparr>))"

fun process_files ::
  "'g python \<Rightarrow> string \<Rightarrow> string \<Rightarrow> string \<Rightarrow> string \<Rightarrow> string list \<Rightarrow> world \<Rightarrow> world" where
  "process_files P img_dir ann_dir dst_dir destination [] W = W"
| "process_files P img_dir ann_dir dst_dir destination (img_file # rest) W =
     process_files P img_dir ann_dir dst_dir destination rest
       (process_file P img_dir ann_dir dst_dir destination img_file W)"

fun process_buckets ::
  "'g python \<Rightarrow> string \<Rightarrow> string \<Rightarrow> string \<Rightarrow> (string \<times> string list) list \<Rightarrow> world \<Rightarrow> world" where
  "process_buckets P img_dir ann_dir dst_dir [] W = W"
| "process_buckets P img_dir ann_dir dst_dir ((destination, bucket) # rest) W =
     process_buckets P img_dir ann_dir dst_dir rest
       (process_files P img_dir ann_dir dst_dir destination bucket W)"

text \<open>
  \<^verbatim>\<open>process_split\<close>.  \<open>yaml_names\<close> is the class-name list of the YAML file, \<open>None\<close> when
  loading it fails; \<open>listdir\<close> gives the entries of a directory, \<open>None\<close> when it does
  not exist.  The result is the table with the file system and what was printed, and the
  generator state left behind.
\<close>

definition process_split ::
  "'g python \<Rightarrow> 'g \<Rightarrow> (string \<rightharpoonup> string list) \<Rightarrow> (string \<rightharpoonup> string list) \<Rightarrow>
     string list option \<Rightarrow> string \<Rightarrow> string \<Rightarrow> string \<Rightarrow> int \<Rightarrow> bool \<Rightarrow>
     py_error + (world \<times> 'g)" where
  "process_split P g listdir fs yaml_names src_dir dst_dir subset_name nclients is_train =
     (case yaml_names of
        None \<Rightarrow> Inl (RuntimeError ''yaml'')
      | Some names \<Rightarrow>
          let table = get_distribution_dataframe names nclients;
              img_dir = path_join src_dir [''images'', subset_name];
              ann_dir = path_join src_dir [''annotations'', subset_name]
          in case listdir img_dir of
               None \<Rightarrow> Inl (FileNotFoundError img_dir)
             | Some entries \<Rightarrow>
                 if listdir ann_dir = None then Inl (FileNotFoundError ann_dir)
                 else
                   let img_files = filter (\<lambda>f. endswith f ''.jpg'') entries in
                   if img_files = [] then Inl (RuntimeError subset_name)
                   else
                     (case split_map P g img_files nclients is_train of
                        Inl e \<Rightarrow> Inl e
                      | Inr (buckets, shuffled, g') \<Rightarrow>
                          Inr (process_buckets P img_dir ann_dir dst_dir buckets
                                 \<lparr>w_files = fs, w_dist_df = table, w_printed = []\<rparr>, g')))"

definition visdrone_names :: "string list" where
  "visdrone_names =
     [''pedestrian'', ''people'', ''bicycle'', ''car'', ''van'', ''truck'', ''tricycle'',
      ''awning-tricycle'', ''bus'', ''motor'']"

section \<open>Reading the distribution table\<close>

text \<open>The table with one cell incremented.\<close>

definition cell_plus1 :: "dataframe \<Rightarrow> string \<Rightarrow> string \<Rightarrow> dataframe" where
  "cell_plus1 df row col =
     df\<lparr>df_cell := (df_cell df)(row := (df_cell df row)(col := df_cell df row col + 1))\<rparr>"

text \<open>
  The sum of the class-name cells of a column (every row but the first, which is
  \<^verbatim>\<open>'Samples'\<close>), and the table in which every column's \<^verbatim>\<open>'Samples'\<close> cell equals
  that sum.
\<close>

definition class_total :: "dataframe \<Rightarrow> string \<Rightarrow> int" where
  "class_total df col = sum_list (map (\<lambda>row. df_cell df row col) (tl (df_index df)))"

definition balanced :: "dataframe \<Rightarrow> bool" where
  "balanced df \<longleftrightarrow> list_all (\<lambda>col. df_cell df ''Samples'' col = class_total df col) (df_columns df)"

text \<open>
  A table as \<^verbatim>\<open>get_distribution_dataframe\<close> builds it from a class-name list without
  duplicates and without the name \<^verbatim>\<open>'Samples'\<close>.
\<close>

definition wf_table :: "dataframe \<Rightarrow> bool" where
  "wf_table df \<longleftrightarrow> distinct (df_index df) \<and> df_index df \<noteq> [] \<and> hd (df_index df) = ''Samples''"

text \<open>
  A surviving line: one that parses and passes the filter of line 86.
\<close>

definition surviving :: "'g python \<Rightarrow> string \<Rightarrow> bool" where
  "surviving P line =
     (case parse_line P line of
        None \<Rightarrow> False
      | Some (x_min, y_min, w, h, cls_id, status) \<Rightarrow> status \<noteq> 0 \<and> 1 \<le> cls_id \<and> cls_id \<le> 10)"

definition class_of :: "'g python \<Rightarrow> string \<Rightarrow> nat" where
  "class_of P line =
     (case parse_line P line of
        None \<Rightarrow> 0
      | Some (x_min, y_min, w, h, cls_id, status) \<Rightarrow> nat cls_id)"

text \<open>
  Two small file systems: an image without its annotation file, and an image whose
  annotation has two boxes to keep (a car and a van) and one with status flag 0.
\<close>

definition image_only :: world where
  "image_only =
     \<lparr>w_files = [''VisDrone2019/images/train/0000001.jpg'' \<mapsto> [''JFIF'']],
      w_dist_df = get_distribution_dataframe visdrone_names 1,
      w_printed = []\<rparr>"

definition annotated_image :: world where
  "annotated_image =
     \<lparr>w_files = [''VisDrone2019/images/train/0000001.jpg'' \<mapsto> [''JFIF''],
                 ''VisDrone2019/annotations/train/0000001.txt'' \<mapsto>
                   [''684,8,273,116,0,4,1,0'', ''684,8,273,116,0,4,0,0'',
                    ''406,119,265,70,0,5,1,0'']],
      w_dist_df = get_distribution_dataframe visdrone_names 1,
      w_printed = []\<rparr>"

section \<open>Properties of the partitioner\<close>

lemma shuffle_loop_ok:
  assumes "randbelow_in_range P" "k < length x"
  shows "\<exists>y g'. shuffle_loop P k g x = Inr (y, g') \<and> mset y = mset x \<and> length y = length x"
  using assms(2)
proof (induction k arbitrary: g x)
  case 0
  then show ?case by simp
next
  case (Suc k)
  obtain j g1 where rb: "py_randbelow P g (Suc k + 1) = (j, g1)"
    by (cases "py_randbelow P g (Suc k + 1)")
  have "fst (py_randbelow P g (Suc k + 1)) < Suc k + 1"
    using assms(1) unfolding randbelow_in_range_def by simp
  with rb Suc.prems have j: "j < length x" by simp
  let ?x = "x[Suc k := x ! j, j := x ! Suc k]"
  have len: "length ?x = length x" by simp
  have ms: "mset ?x = mset x"
    using mset_swap [of j x "Suc k"] j Suc.prems by simp
  from Suc.IH [of ?x g1] Suc.prems len
  obtain y g' where "shuffle_loop P k g1 ?x = Inr (y, g')" "mset y = mset ?x" "length y = length ?x"
    by auto
  with rb j Suc.prems ms show ?case by simp
qed

lemma shuffle_ok:
  assumes "randbelow_in_range P"
  shows "\<exists>y g'. shuffle P g x = Inr (y, g') \<and> mset y = mset x \<and> length y = length x"
proof (cases x)
  case Nil
  then show ?thesis by (simp add: shuffle_def)
next
  case (Cons a as)
  then have "length x - 1 < length x" by simp
  from shuffle_loop_ok [OF assms this] show ?thesis by (simp add: shuffle_def)
qed

lemma randbelow_words_in_range: "0 < n \<Longrightarrow> fst (randbelow_words ws n) < n"
  by (induction ws) (simp_all add: Let_def)

lemma cpython42_in_range: "randbelow_in_range cpython42"
  by (simp add: randbelow_in_range_def cpython42_def randbelow_words_in_range)

lemma length_slice_from:
  "0 < n \<Longrightarrow> length (slice_from xs i n) = (length xs + n - 1 - i) div n"
proof (induction xs i n rule: slice_from.induct)
  case (1 start step)
  then show ?case by simp
next
  case (2 x xs step)
  then have "length (slice_from xs (step - 1) step) = (length xs + step - 1 - (step - 1)) div step"
    by simp
  also have "\<dots> = length xs div step" using 2 by simp
  finally show ?case using 2 by simp
next
  case (3 x xs s step)
  then show ?case by simp
qed

lemma mset_slices:
  "0 < n \<Longrightarrow> mset (concat (map (\<lambda>i. slice_from xs i n) [0..<n])) = mset xs"
proof (induction xs)
  case Nil
  have "concat (map (\<lambda>i. slice_from [] i n) [0..<n]) = []" by (induction n) simp_all
  then show ?case by simp
next
  case (Cons x xs)
  from Cons.prems obtain m where n: "n = Suc m" by (cases n) auto
  have "[0..<n] = 0 # map Suc [0..<m]"
    unfolding n by (simp add: upt_conv_Cons map_Suc_upt del: upt_Suc)
  then have "concat (map (\<lambda>i. slice_from (x # xs) i n) [0..<n])
      = (x # slice_from xs m n) @ concat (map (\<lambda>i. slice_from xs i n) [0..<m])"
    by (simp add: n comp_def)
  moreover have "concat (map (\<lambda>i. slice_from xs i n) [0..<n])
      = concat (map (\<lambda>i. slice_from xs i n) [0..<m]) @ slice_from xs m n"
    by (simp add: n)
  ultimately show ?case using Cons.IH [OF Cons.prems] by (simp add: ac_simps)
qed

lemma ceiling_div_nat:
  assumes "0 < n"
  shows "\<lceil>real m / real n\<rceil> = int ((m + n - 1) div n)"
proof (rule ceiling_unique)
  let ?k = "(m + n - 1) div n"
  have "?k * n \<le> m + n - 1" by simp
  then have "?k * n < m + n" using assms by linarith
  then have "real (?k * n) < real (m + n)" by (simp only: of_nat_less_iff)
  then have "(real ?k - 1) * real n < real m" by (simp add: algebra_simps)
  then show "real_of_int (int ?k) - 1 < real m / real n"
    using assms by (simp add: pos_less_divide_eq)
  have "m + n - 1 < ?k * n + n"
    using assms dividend_less_div_times [of n "m + n - 1"] by (simp add: ac_simps)
  then have "m \<le> ?k * n" using assms by linarith
  then have "real m \<le> real (?k * n)" by (simp only: of_nat_le_iff)
  then show "real m / real n \<le> real_of_int (int ?k)"
    using assms by (simp add: pos_divide_le_eq)
qed

lemma slice_length_floor_or_ceiling:
  assumes "0 < n" "i < n"
  shows "(m + n - 1 - i) div n = m div n \<or> (m + n - 1 - i) div n = (m + n - 1) div (n::nat)"
proof -
  have "m \<le> m + n - 1 - i" using assms by arith
  then have a: "m div n \<le> (m + n - 1 - i) div n" by (rule div_le_mono)
  have "m + n - 1 - i \<le> m + n - 1" by linarith
  then have b: "(m + n - 1 - i) div n \<le> (m + n - 1) div n" by (rule div_le_mono)
  have "m + n - 1 \<le> m + n" by linarith
  then have "(m + n - 1) div n \<le> (m + n) div n" by (rule div_le_mono)
  then have c: "(m + n - 1) div n \<le> m div n + 1"
    using assms by simp
  from a b c show ?thesis by linarith
qed

lemma digit_val_digit_char: "d < 10 \<Longrightarrow> digit_val (digit_char d) = Some d"
proof -
  assume "d < 10"
  then consider "d = 0" | "d = 1" | "d = 2" | "d = 3" | "d = 4" | "d = 5" | "d = 6"
    | "d = 7" | "d = 8" | "d = 9" by atomize_elim arith
  then show ?thesis by cases (simp_all add: digit_char_def digit_val_def)
qed

lemma digits_val_append:
  "digits_val acc (xs @ ys) =
     (case digits_val acc xs of None \<Rightarrow> None | Some a \<Rightarrow> digits_val a ys)"
  by (induction xs arbitrary: acc) (simp_all split: option.splits)

text \<open>Reading back the decimal text of a number gives the number: \<^verbatim>\<open>int(str(n)) == n\<close>.\<close>

lemma digits_val_str_nat: "digits_val 0 (str_nat n) = Some n"
proof (induction n rule: str_nat.induct)
  case (1 n)
  show ?case
  proof (cases "n < 10")
    case True
    then have "str_nat n = [digit_char n]" by (subst str_nat.simps) simp
    with True show ?thesis by (simp add: digit_val_digit_char)
  next
    case False
    with 1 have IH: "digits_val 0 (str_nat (n div 10)) = Some (n div 10)" by simp
    from False have "str_nat n = str_nat (n div 10) @ [digit_char (n mod 10)]"
      by (subst str_nat.simps) simp
    then show ?thesis
      by (simp add: digits_val_append IH digit_val_digit_char)
  qed
qed

lemma str_nat_inj: "str_nat a = str_nat b \<Longrightarrow> a = b"
proof -
  assume eq: "str_nat a = str_nat b"
  have "Some a = digits_val 0 (str_nat a)" by (simp only: digits_val_str_nat)
  also have "\<dots> = digits_val 0 (str_nat b)" by (simp only: eq)
  also have "\<dots> = Some b" by (simp only: digits_val_str_nat)
  finally show "a = b" by simp
qed

text \<open>
  The dictionary comprehension of \<^verbatim>\<open>split_files\<close> never writes a key twice, so the
  list of items is the dictionary.
\<close>

lemma client_keys_distinct:
  "distinct (map (\<lambda>i. ''client'' @ str_nat (i + 1)) [0..<n])"
proof -
  have "inj_on (\<lambda>i. ''client'' @ str_nat (i + 1)) (set [0..<n])"
  proof (rule inj_onI)
    fix a b
    assume "''client'' @ str_nat (a + 1) = ''client'' @ str_nat (b + 1)"
    then have "str_nat (a + 1) = str_nat (b + 1)" by simp
    then have "a + 1 = b + 1" by (rule str_nat_inj)
    then show "a = b" by simp
  qed
  then show ?thesis by (simp add: distinct_map)
qed

lemma bit_length_2: "bit_length (Suc (Suc 0)) = 2"
  by (simp add: bit_length.simps)

lemma bit_length_3: "bit_length (Suc (Suc (Suc 0))) = 2"
  by (simp add: bit_length.simps)

lemma randbelow_words_2:
  "randbelow_words mt19937_seed42 (Suc (Suc 0)) = (0, drop 2 mt19937_seed42)"
  by (simp add: mt19937_seed42_def bit_length_2)

lemma str_nat_1: "str_nat (Suc 0) = ''1''"
  by (simp add: str_nat.simps digit_char_def)

text \<open>
  \<^verbatim>\<open>random.seed(42); x = [a, b]; random.shuffle(x)\<close> leaves \<^verbatim>\<open>x == [b, a]\<close>:
  \<^verbatim>\<open>_randbelow(2)\<close> asks for two bits, rejects the first word (top bits 10) and
  takes the second (top bits 00).
\<close>

lemma shuffle_two:
  "shuffle cpython42 mt19937_seed42 [a, b] = Inr ([b, a], drop 2 mt19937_seed42)"
  by (simp add: shuffle_def cpython42_def randbelow_words_2)

lemma split_files_result:
  assumes "randbelow_in_range P"
  shows "\<exists>files' g'.
      split_files P g files nclients =
        Inr (map (\<lambda>i. (''client'' @ str_nat (i + 1), slice_from files' i (nat nclients)))
               [0..<nat nclients], files', g')
      \<and> shuffle P (py_seed P 42) files = Inr (files', g')
      \<and> mset files' = mset files \<and> length files' = length files"
proof -
  from shuffle_ok [OF assms, of "py_seed P 42" files]
  obtain y g' where "shuffle P (py_seed P 42) files = Inr (y, g')"
    "mset y = mset files" "length y = length files" by blast
  then show ?thesis by (simp add: split_files_def)
qed

text \<open>
  C7.  Determinism: whatever state the generator of the \<^verbatim>\<open>random\<close> module is in
  when \<^verbatim>\<open>split_files\<close> is called, the same file list and the same client count give
  the same assignment (the same buckets, each with its files in the same order),
  because the generator is reseeded with the constant 42 first.
\<close>

theorem split_files_deterministic:
  "split_files P g files nclients = split_files P g' files nclients"
  by (simp add: split_files_def)

text \<open>
  C6.  Balance: for a client count \<open>N \<ge> 1\<close> and a file list of size \<open>M\<close>,
  \<^verbatim>\<open>split_files\<close> returns \<open>N\<close> buckets, each of size \<open>\<lfloor>M/N\<rfloor>\<close> or \<open>\<lceil>M/N\<rceil>\<close>, so
  the sizes of two buckets differ by at most one.  The empty list is not an error:
  no number is drawn, and all \<open>N\<close> buckets are empty.  (For a non-empty list the
  call returns provided \<^verbatim>\<open>_randbelow\<close> keeps its contract.)
\<close>

theorem split_files_balanced:
  assumes "randbelow_in_range P \<or> files = []" and "1 \<le> nclients"
  shows "\<exists>buckets files' g'.
      split_files P g files nclients = Inr (buckets, files', g')
      \<and> length buckets = nat nclients
      \<and> (\<forall>b \<in> set buckets.
            int (length (snd b)) = \<lfloor>real (length files) / real_of_int nclients\<rfloor>
          \<or> int (length (snd b)) = \<lceil>real (length files) / real_of_int nclients\<rceil>)
      \<and> (\<forall>b \<in> set buckets. \<forall>b' \<in> set buckets.
            int (length (snd b)) - int (length (snd b')) \<le> 1)
      \<and> (files = [] \<longrightarrow> (\<forall>b \<in> set buckets. snd b = []))"
proof -
  define n where "n = nat nclients"
  have n: "0 < n" "real_of_int nclients = real n" using assms(2) by (simp_all add: n_def)
  have "\<exists>files' g'. shuffle P (py_seed P 42) files = Inr (files', g') \<and> length files' = length files"
  proof (cases "files = []")
    case True
    then show ?thesis by (simp add: shuffle_def)
  next
    case False
    with assms(1) have "randbelow_in_range P" by simp
    from shuffle_ok [OF this, of "py_seed P 42" files] show ?thesis by blast
  qed
  then obtain files' g' where sh: "shuffle P (py_seed P 42) files = Inr (files', g')"
    and len: "length files' = length files" by blast
  let ?buckets = "map (\<lambda>i. (''client'' @ str_nat (i + 1), slice_from files' i n)) [0..<n]"
  have res: "split_files P g files nclients = Inr (?buckets, files', g')"
    by (simp add: split_files_def sh n_def)
  let ?M = "length files"
  have size: "length (snd b) = ?M div n \<or> length (snd b) = (?M + n - 1) div n"
    if "b \<in> set ?buckets" for b
  proof -
    from that obtain i where i: "i < n" "snd b = slice_from files' i n" by auto
    then have "length (snd b) = (?M + n - 1 - i) div n"
      using n(1) by (simp add: length_slice_from len)
    with slice_length_floor_or_ceiling [OF n(1) i(1), of ?M] show ?thesis by simp
  qed
  have fl: "\<lfloor>real ?M / real n\<rfloor> = int (?M div n)" by (simp add: floor_divide_of_nat_eq)
  have ce: "\<lceil>real ?M / real n\<rceil> = int ((?M + n - 1) div n)" by (rule ceiling_div_nat [OF n(1)])
  have le: "(?M + n - 1) div n \<le> ?M div n + 1"
  proof -
    have "?M + n - 1 \<le> ?M + n" by simp
    then have "(?M + n - 1) div n \<le> (?M + n) div n" by (rule div_le_mono)
    then show ?thesis using n(1) by simp
  qed
  have ge: "?M div n \<le> (?M + n - 1) div n"
  proof -
    have "?M \<le> ?M + n - 1" using n(1) by linarith
    then show ?thesis by (rule div_le_mono)
  qed
  have c1: "length ?buckets = nat nclients" by (simp add: n_def)
  have c2: "\<forall>b \<in> set ?buckets.
            int (length (snd b)) = \<lfloor>real ?M / real_of_int nclients\<rfloor>
          \<or> int (length (snd b)) = \<lceil>real ?M / real_of_int nclients\<rceil>"
    using size by (simp only: n(2) fl ce) auto
  have c3: "\<forall>b \<in> set ?buckets. \<forall>b' \<in> set ?buckets.
            int (length (snd b)) - int (length (snd b')) \<le> 1"
  proof (intro ballI)
    fix b b' assume "b \<in> set ?buckets" "b' \<in> set ?buckets"
    from size [OF this(1)] size [OF this(2)] le ge
    show "int (length (snd b)) - int (length (snd b')) \<le> 1" by linarith
  qed
  have c4: "files = [] \<longrightarrow> (\<forall>b \<in> set ?buckets. snd b = [])"
    using len by auto
  from res c1 c2 c3 c4 show ?thesis by blast
qed

lemma shuffle_three:
  "shuffle cpython42 mt19937_seed42 [a, b, c] = Inr ([b, a, c], drop 2 mt19937_seed42)"
proof -
  have "randbelow_words mt19937_seed42 (Suc (Suc (Suc 0))) = (2, drop 1 mt19937_seed42)"
    by (simp add: mt19937_seed42_def bit_length_3)
  moreover have "randbelow_words (drop 1 mt19937_seed42) (Suc (Suc 0)) = (0, drop 2 mt19937_seed42)"
    by (simp add: mt19937_seed42_def bit_length_2)
  ultimately show ?thesis
    by (simp add: shuffle_def cpython42_def)
qed


theorem split_files_balanced_witness:
  "(randbelow_in_range cpython42 \<or> [''a.jpg'', ''b.jpg'', ''c.jpg''] = []) \<and> (1::int) \<le> 2
   \<and> split_files cpython42 [] [''a.jpg'', ''b.jpg'', ''c.jpg''] 2
     = Inr ([(''client1'', [''b.jpg'', ''c.jpg'']), (''client2'', [''a.jpg''])],
            [''b.jpg'', ''a.jpg'', ''c.jpg''], drop 2 mt19937_seed42)
   \<and> (\<exists>buckets files' g'.
      split_files cpython42 [] [''a.jpg'', ''b.jpg'', ''c.jpg''] 2 = Inr (buckets, files', g')
      \<and> length buckets = nat 2
      \<and> (\<forall>b \<in> set buckets.
            int (length (snd b)) = \<lfloor>real (length [''a.jpg'', ''b.jpg'', ''c.jpg'']) / real_of_int 2\<rfloor>
          \<or> int (length (snd b)) = \<lceil>real (length [''a.jpg'', ''b.jpg'', ''c.jpg'']) / real_of_int 2\<rceil>)
      \<and> (\<forall>b \<in> set buckets. \<forall>b' \<in> set buckets.
            int (length (snd b)) - int (length (snd b')) \<le> 1)
      \<and> ([''a.jpg'', ''b.jpg'', ''c.jpg''] = [] \<longrightarrow> (\<forall>b \<in> set buckets. snd b = [])))"
proof -
  have h1: "randbelow_in_range cpython42 \<or> [''a.jpg'', ''b.jpg'', ''c.jpg''] = []"
    using cpython42_in_range by simp
  have h2: "(1::int) \<le> 2" by simp
  have seed: "py_seed cpython42 42 = mt19937_seed42" by (simp add: cpython42_def)
  have s2: "str_nat (Suc (Suc 0)) = ''2''" by (simp add: str_nat.simps digit_char_def)
  have ev: "split_files cpython42 [] [''a.jpg'', ''b.jpg'', ''c.jpg''] 2
     = Inr ([(''client1'', [''b.jpg'', ''c.jpg'']), (''client2'', [''a.jpg''])],
            [''b.jpg'', ''a.jpg'', ''c.jpg''], drop 2 mt19937_seed42)"
    by (simp add: split_files_def seed shuffle_three str_nat_1 s2 upt_rec numeral_2_eq_2)
  from h1 h2 ev split_files_balanced [OF h1 h2, of "[]"] show ?thesis by blast
qed

text \<open>
  C1, as stated for every client count, fails for \<open>N = 0\<close> (and any \<open>N \<le> 0\<close>):
  \<^verbatim>\<open>range(0)\<close> is empty, the dictionary has no bucket, and the one input file is
  in none.  \<^verbatim>\<open>--nclients 0\<close> is accepted by the argument parser.
\<close>

theorem split_map_zero_clients_counterexample:
  "split_map cpython42 [] [''0000001.jpg''] 0 True = Inr ([], [''0000001.jpg''], mt19937_seed42)"
  by (simp add: split_map_def split_files_def shuffle_def cpython42_def)


text \<open>
  C1 (amended).  Partition completeness: in validation mode for every client count,
  and in training mode for every client count \<open>N \<ge> 1\<close>, the buckets taken
  together hold exactly the input files, each as often as the input list does
  (equality of multisets, hence of sets).  When the input list has no duplicates, as
  a directory listing has none, no file occurs twice in the concatenation of all
  buckets: no bucket holds a file twice and no two buckets share a file.
\<close>

theorem split_map_partition:
  assumes "randbelow_in_range P" and "is_train \<longrightarrow> 1 \<le> nclients"
  shows "\<exists>buckets files' g'.
      split_map P g files nclients is_train = Inr (buckets, files', g')
      \<and> mset (concat (map snd buckets)) = mset files
      \<and> set (concat (map snd buckets)) = set files
      \<and> (distinct files \<longrightarrow> distinct (concat (map snd buckets)))"
proof (cases is_train)
  case False
  then have "split_map P g files nclients is_train = Inr ([(''server'', files)], files, g)"
    by (simp add: split_map_def)
  then show ?thesis by simp
next
  case True
  with assms(2) have n: "0 < nat nclients" by simp
  from split_files_result [OF assms(1), of g files nclients]
  obtain files' g' where
    res: "split_files P g files nclients =
        Inr (map (\<lambda>i. (''client'' @ str_nat (i + 1), slice_from files' i (nat nclients)))
               [0..<nat nclients], files', g')"
    and ms: "mset files' = mset files" by blast
  define buckets where
    "buckets = map (\<lambda>i. (''client'' @ str_nat (i + 1), slice_from files' i (nat nclients)))
               [0..<nat nclients]"
  have eq: "map snd buckets = map (\<lambda>i. slice_from files' i (nat nclients)) [0..<nat nclients]"
    by (simp add: buckets_def comp_def)
  have "mset (concat (map snd buckets)) = mset files'"
    unfolding eq by (rule mset_slices [OF n])
  with ms have m: "mset (concat (map snd buckets)) = mset files" by simp
  then have s: "set (concat (map snd buckets)) = set files" by (rule mset_eq_setD)
  have d: "distinct files \<longrightarrow> distinct (concat (map snd buckets))"
    using mset_eq_imp_distinct_iff [OF m] by simp
  have sm: "split_map P g files nclients is_train = Inr (buckets, files', g')"
    using True res by (simp add: split_map_def buckets_def)
  from sm m s d show ?thesis by (intro exI conjI)
qed


theorem split_map_partition_witness:
  "randbelow_in_range cpython42 \<and> (1::int) \<le> 2
   \<and> (\<exists>buckets files' g'.
      split_map cpython42 [] [''a.jpg'', ''b.jpg'', ''c.jpg''] 2 True = Inr (buckets, files', g')
      \<and> mset (concat (map snd buckets)) = mset [''a.jpg'', ''b.jpg'', ''c.jpg'']
      \<and> set (concat (map snd buckets)) = set [''a.jpg'', ''b.jpg'', ''c.jpg'']
      \<and> (distinct [''a.jpg'', ''b.jpg'', ''c.jpg'']
           \<longrightarrow> distinct (concat (map snd buckets))))"
proof (intro conjI)
  show "randbelow_in_range cpython42" by (rule cpython42_in_range)
  show "(1::int) \<le> 2" by simp
  then have h2: "True \<longrightarrow> (1::int) \<le> 2" by simp
  show "\<exists>buckets files' g'.
      split_map cpython42 [] [''a.jpg'', ''b.jpg'', ''c.jpg''] 2 True = Inr (buckets, files', g')
      \<and> mset (concat (map snd buckets)) = mset [''a.jpg'', ''b.jpg'', ''c.jpg'']
      \<and> set (concat (map snd buckets)) = set [''a.jpg'', ''b.jpg'', ''c.jpg'']
      \<and> (distinct [''a.jpg'', ''b.jpg'', ''c.jpg'']
           \<longrightarrow> distinct (concat (map snd buckets)))"
    by (rule split_map_partition [OF cpython42_in_range h2])
qed

text \<open>
  C8, as stated, fails: \<^verbatim>\<open>random.shuffle(files)\<close> works in place.  With the
  caller's list \<^verbatim>\<open>['a.jpg', 'b.jpg']\<close> and one client, the list is left as
  \<^verbatim>\<open>['b.jpg', 'a.jpg']\<close>, and the generator of the \<^verbatim>\<open>random\<close> module, here in
  the state \<open>[]\<close> before the call, is left two words into the stream of seed 42.
\<close>

theorem split_files_mutates_counterexample:
  "split_files cpython42 [] [''a.jpg'', ''b.jpg''] 1
     = Inr ([(''client1'', [''b.jpg'', ''a.jpg''])], [''b.jpg'', ''a.jpg''],
            drop 2 mt19937_seed42)
   \<and> [''b.jpg'', ''a.jpg''] \<noteq> [''a.jpg'', ''b.jpg'']
   \<and> drop 2 mt19937_seed42 \<noteq> []"
proof -
  have "py_seed cpython42 42 = mt19937_seed42" by (simp add: cpython42_def)
  then have "split_files cpython42 [] [''a.jpg'', ''b.jpg''] 1
     = Inr ([(''client1'', [''b.jpg'', ''a.jpg''])], [''b.jpg'', ''a.jpg''],
            drop 2 mt19937_seed42)"
    by (simp add: split_files_def shuffle_two str_nat_1)
  moreover have "drop 2 mt19937_seed42 \<noteq> []" by (simp add: mt19937_seed42_def)
  ultimately show ?thesis by simp
qed

text \<open>
  C8 (amended).  What \<^verbatim>\<open>split_files\<close> returns and leaves behind is a function of
  the file list and the client count alone: it does not depend on the state of the
  generator on entry.  It is not free of effects: the caller's list is left as the
  shuffled permutation of its former content (same files, same length), which is the
  list the buckets are sliced from, and the generator is left in the state that the
  shuffle reaches from seed 42.  In validation mode the list and the generator are
  left as they were.
\<close>

theorem split_files_effects:
  assumes "randbelow_in_range P"
  shows "\<exists>buckets files' g'.
      split_files P g files nclients = Inr (buckets, files', g')
      \<and> (\<forall>g0. split_files P g0 files nclients = Inr (buckets, files', g'))
      \<and> mset files' = mset files \<and> length files' = length files
      \<and> shuffle P (py_seed P 42) files = Inr (files', g')
      \<and> map snd buckets = map (\<lambda>i. slice_from files' i (nat nclients)) [0..<nat nclients]
      \<and> split_map P g files nclients False = Inr ([(''server'', files)], files, g)"
proof -
  from split_files_result [OF assms, of g files nclients]
  obtain files' g' where
    res: "split_files P g files nclients =
        Inr (map (\<lambda>i. (''client'' @ str_nat (i + 1), slice_from files' i (nat nclients)))
               [0..<nat nclients], files', g')"
    and sh: "shuffle P (py_seed P 42) files = Inr (files', g')"
    and ms: "mset files' = mset files" "length files' = length files" by blast
  let ?buckets = "map (\<lambda>i. (''client'' @ str_nat (i + 1), slice_from files' i (nat nclients)))
               [0..<nat nclients]"
  have all: "\<forall>g0. split_files P g0 files nclients = Inr (?buckets, files', g')"
    using res by (simp add: split_files_def)
  have sl: "map snd ?buckets = map (\<lambda>i. slice_from files' i (nat nclients)) [0..<nat nclients]"
    by (simp add: comp_def)
  have sv: "split_map P g files nclients False = Inr ([(''server'', files)], files, g)"
    by (simp add: split_map_def)
  from res all ms sh sl sv show ?thesis by blast
qed


theorem split_files_effects_witness:
  "randbelow_in_range cpython42
   \<and> (\<exists>buckets files' g'.
      split_files cpython42 [] [''a.jpg'', ''b.jpg''] 1 = Inr (buckets, files', g')
      \<and> (\<forall>g0. split_files cpython42 g0 [''a.jpg'', ''b.jpg''] 1 = Inr (buckets, files', g'))
      \<and> mset files' = mset [''a.jpg'', ''b.jpg''] \<and> length files' = length [''a.jpg'', ''b.jpg'']
      \<and> shuffle cpython42 (py_seed cpython42 42) [''a.jpg'', ''b.jpg''] = Inr (files', g')
      \<and> map snd buckets = map (\<lambda>i. slice_from files' i (nat 1)) [0..<nat 1]
      \<and> split_map cpython42 [] [''a.jpg'', ''b.jpg''] 1 False
           = Inr ([(''server'', [''a.jpg'', ''b.jpg''])], [''a.jpg'', ''b.jpg''], []))"
  using cpython42_in_range
    split_files_effects [OF cpython42_in_range, of "[]" "[''a.jpg'', ''b.jpg'']" 1]
  by (intro conjI)

section \<open>Properties of the annotation transformer\<close>

lemma strip_plain: "strip ''684,8,273,116,0,4,1,0'' = ''684,8,273,116,0,4,1,0''"
  by (simp add: strip_def is_space_def)

lemma split_example:
  "split_on CHR '','' ''684,8,273,116,0,4,1,0''
     = [''684'', ''8'', ''273'', ''116'', ''0'', ''4'', ''1'', ''0'']"
  by simp

lemma parse_example:
  "parse_line cpython42 ''684,8,273,116,0,4,1,0'' = Some (684, 8, 273, 116, 4, 1)"
  by (simp add: parse_line_def strip_plain cpython42_def digit_val_def)

lemma replace_example: "replace ''.jpg'' ''.txt'' ''01.jpg'' = ''01.txt''"
  by (simp add: replace.simps)

text \<open>
  C2.  Filter: a line that parses and whose status flag is 0, or whose class id is below
  1 or above 10, is skipped whatever its other fields are: the loop goes on with the
  text written so far and with the table as they were, so the line is not written and
  no cell is incremented for it.
\<close>

theorem filtered_line_skipped:
  assumes "parse_line P line = Some (x_min, y_min, w, h, cls_id, status)"
    and "status = 0 \<or> cls_id < 1 \<or> 10 < cls_id"
  shows "process_lines P destination (line # src) dst df
           = process_lines P destination src dst df"
  using assms by auto

lemma strip_no_space:
  "s \<noteq> [] \<Longrightarrow> \<not> is_space (hd s) \<Longrightarrow> \<not> is_space (last s) \<Longrightarrow> strip s = s"
proof -
  assume s: "s \<noteq> []" "\<not> is_space (hd s)" "\<not> is_space (last s)"
  then have a: "dropWhile is_space s = s" by (cases s) simp_all
  from s have "rev s \<noteq> []" "\<not> is_space (hd (rev s))" by (simp_all add: hd_rev)
  then have "dropWhile is_space (rev s) = rev s" by (cases "rev s") simp_all
  with a show ?thesis by (simp add: strip_def)
qed

lemma parse_status0:
  "parse_line cpython42 ''684,8,273,116,0,4,0,0'' = Some (684, 8, 273, 116, 4, 0)"
proof -
  have "strip ''684,8,273,116,0,4,0,0'' = ''684,8,273,116,0,4,0,0''"
    by (rule strip_no_space) (simp_all add: is_space_def)
  then show ?thesis by (simp add: parse_line_def cpython42_def digit_val_def)
qed

theorem filtered_line_skipped_witness:
  "parse_line cpython42 ''684,8,273,116,0,4,0,0'' = Some (684, 8, 273, 116, 4, 0)
   \<and> ((0::int) = 0 \<or> (4::int) < 1 \<or> (10::int) < 4)
   \<and> process_lines cpython42 ''client1'' [''684,8,273,116,0,4,0,0''] []
        (get_distribution_dataframe visdrone_names 1)
      = ([], get_distribution_dataframe visdrone_names 1, None)"
proof -
  have h2: "(0::int) = 0 \<or> (4::int) < 1 \<or> (10::int) < 4" by simp
  from filtered_line_skipped [OF parse_status0 h2, of "''client1''" "[]" "[]"
      "get_distribution_dataframe visdrone_names 1"]
  have "process_lines cpython42 ''client1'' [''684,8,273,116,0,4,0,0''] []
        (get_distribution_dataframe visdrone_names 1)
      = ([], get_distribution_dataframe visdrone_names 1, None)" by simp
  with parse_status0 h2 show ?thesis by (intro conjI)
qed

text \<open>
  C5 (amended).  A line is dropped as malformed if and only if, once stripped and split
  at the commas, it has fewer than eight fields, or one of the six converted fields
  fails to parse: fields 0 to 3 (left, top, width, height) with \<^verbatim>\<open>float\<close>, fields 5
  and 6 (class id, status flag) with \<^verbatim>\<open>int\<close>.  A dropped line raises nothing and
  leaves the written text and the table as they were; every other line reaches the
  filter.
\<close>

theorem malformed_iff_six_fields:
  "(parse_line P line = None \<longleftrightarrow>
      (let parts = split_on CHR '','' (strip line) in
       length parts < 8
       \<or> py_float P (parts ! 0) = None \<or> py_float P (parts ! 1) = None
       \<or> py_float P (parts ! 2) = None \<or> py_float P (parts ! 3) = None
       \<or> py_int P (parts ! 5) = None \<or> py_int P (parts ! 6) = None))
   \<and> (parse_line P line = None \<longrightarrow>
        process_lines P destination (line # src) dst df
          = process_lines P destination src dst df)"
  by (auto simp: parse_line_def Let_def split: option.splits)

lemma parse_plain:
  assumes "s \<noteq> []" "\<not> is_space (hd s)" "\<not> is_space (last s)"
  shows "parse_line P s =
     (let parts = split_on CHR '','' s in
      if length parts < 8 then None
      else
        case py_float P (parts ! 0) of None \<Rightarrow> None | Some x_min \<Rightarrow>
        case py_float P (parts ! 1) of None \<Rightarrow> None | Some y_min \<Rightarrow>
        case py_float P (parts ! 2) of None \<Rightarrow> None | Some w \<Rightarrow>
        case py_float P (parts ! 3) of None \<Rightarrow> None | Some h \<Rightarrow>
        case py_int P (parts ! 5) of None \<Rightarrow> None | Some cls_id \<Rightarrow>
        case py_int P (parts ! 6) of None \<Rightarrow> None | Some status \<Rightarrow>
          Some (x_min, y_min, w, h, cls_id, status))"
  by (simp add: parse_line_def strip_no_space [OF assms])

lemma cpython42_parsers:
  "py_float cpython42 = (\<lambda>s. map_option of_int (decimal_int s))"
  "py_int cpython42 = decimal_int"
  by (simp_all add: cpython42_def)

lemma parse_bad_left: "parse_line cpython42 ''x,8,273,116,0,4,1,0'' = None"
  by (subst parse_plain) (simp_all add: is_space_def cpython42_parsers digit_val_def)

lemma parse_bad_top: "parse_line cpython42 ''684,x,273,116,0,4,1,0'' = None"
  by (subst parse_plain) (simp_all add: is_space_def cpython42_parsers digit_val_def)

lemma parse_bad_width: "parse_line cpython42 ''684,8,x,116,0,4,1,0'' = None"
  by (subst parse_plain) (simp_all add: is_space_def cpython42_parsers digit_val_def)

lemma parse_bad_height: "parse_line cpython42 ''684,8,273,x,0,4,1,0'' = None"
  by (subst parse_plain) (simp_all add: is_space_def cpython42_parsers digit_val_def)

lemma parse_bad_class: "parse_line cpython42 ''684,8,273,116,0,x,1,0'' = None"
  by (subst parse_plain) (simp_all add: is_space_def cpython42_parsers digit_val_def)

lemma parse_bad_status: "parse_line cpython42 ''684,8,273,116,0,4,x,0'' = None"
  by (subst parse_plain) (simp_all add: is_space_def cpython42_parsers digit_val_def)

text \<open>
  C5, as stated with five required numeric fields, fails: the loop converts six
  fields (four with \<^verbatim>\<open>float\<close>, two with \<^verbatim>\<open>int\<close>).  Each of the six lines below has
  eight fields and exactly one field that does not parse, a different one each time,
  and each is dropped; so whichever five fields are taken to be the required ones, one
  of these lines is dropped although its five required fields parse.
\<close>

theorem six_fields_counterexample:
  "length (split_on CHR '','' ''x,8,273,116,0,4,1,0'') = 8
   \<and> parse_line cpython42 ''x,8,273,116,0,4,1,0'' = None
   \<and> length (split_on CHR '','' ''684,x,273,116,0,4,1,0'') = 8
   \<and> parse_line cpython42 ''684,x,273,116,0,4,1,0'' = None
   \<and> length (split_on CHR '','' ''684,8,x,116,0,4,1,0'') = 8
   \<and> parse_line cpython42 ''684,8,x,116,0,4,1,0'' = None
   \<and> length (split_on CHR '','' ''684,8,273,x,0,4,1,0'') = 8
   \<and> parse_line cpython42 ''684,8,273,x,0,4,1,0'' = None
   \<and> length (split_on CHR '','' ''684,8,273,116,0,x,1,0'') = 8
   \<and> parse_line cpython42 ''684,8,273,116,0,x,1,0'' = None
   \<and> length (split_on CHR '','' ''684,8,273,116,0,4,x,0'') = 8
   \<and> parse_line cpython42 ''684,8,273,116,0,4,x,0'' = None
   \<and> parse_line cpython42 ''684,8,273,116,0,4,1,0'' = Some (684, 8, 273, 116, 4, 1)"
  by (simp add: parse_bad_left parse_bad_top parse_bad_width parse_bad_height parse_bad_class
      parse_bad_status parse_example)

theorem malformed_iff_six_fields_witness:
  "parse_line cpython42 ''684,8,273,116,0,4,x,0'' = None
   \<and> process_lines cpython42 ''client1'' [''684,8,273,116,0,4,x,0''] []
        (get_distribution_dataframe visdrone_names 1)
      = ([], get_distribution_dataframe visdrone_names 1, None)"
proof -
  from malformed_iff_six_fields [of cpython42 "''684,8,273,116,0,4,x,0''" "''client1''" "[]" "[]"
      "get_distribution_dataframe visdrone_names 1"] parse_bad_status
  have "process_lines cpython42 ''client1'' [''684,8,273,116,0,4,x,0''] []
        (get_distribution_dataframe visdrone_names 1)
      = process_lines cpython42 ''client1'' [] [] (get_distribution_dataframe visdrone_names 1)"
    by (elim conjE) (erule mp)
  with parse_bad_status show ?thesis by simp
qed

lemma round_step:
  assumes "round_to_nearest P" and "\<bar>x - c\<bar> \<le> d" and "\<bar>c\<bar> + d \<le> 1000"
  shows "\<bar>py_round P x - c\<bar> \<le> d + 1 / 10 ^ 6"
proof -
  from assms(2,3) have x: "\<bar>x\<bar> \<le> 1000" by linarith
  from assms(1) have "\<bar>py_round P x - x\<bar> \<le> \<bar>x\<bar> / 2 ^ 53"
    by (simp add: round_to_nearest_def)
  also have "\<dots> \<le> 1000 / 2 ^ 53" using x by (simp add: divide_right_mono)
  also have "\<dots> \<le> 1 / 10 ^ 6" by simp
  finally have "\<bar>py_round P x - x\<bar> \<le> 1 / 10 ^ 6" .
  with assms(2) show ?thesis by linarith
qed

lemma round_div:
  assumes "round_to_nearest P" and "\<bar>a - c\<bar> \<le> d" and "0 < k" and "\<bar>c\<bar> / k + d / k \<le> 1000"
  shows "\<bar>py_round P (a / k) - c / k\<bar> \<le> d / k + 1 / 10 ^ 6"
proof (rule round_step [OF assms(1)])
  have "\<bar>a / k - c / k\<bar> = \<bar>a - c\<bar> / k"
    using assms(3) by (simp add: diff_divide_distrib [symmetric])
  also have "\<dots> \<le> d / k" using assms(2,3) by (simp add: divide_right_mono)
  finally show "\<bar>a / k - c / k\<bar> \<le> d / k" .
  show "\<bar>c / k\<bar> + d / k \<le> 1000" using assms(3,4) by simp
qed

lemma abs_shift:
  fixes x :: real
  shows "\<bar>x - c\<bar> \<le> d \<Longrightarrow> \<bar>c - c'\<bar> + d \<le> e \<Longrightarrow> \<bar>x - c'\<bar> \<le> e"
  by linarith

text \<open>
  C3.  Conversion: for the box left 100, top 200, width 300, height 150 at 1920 by
  1080, with right and bottom computed as \<^verbatim>\<open>x_min + w\<close> and \<^verbatim>\<open>y_min + h\<close>,
  \<^verbatim>\<open>convert_bbox\<close> returns values within \<open>10\<^sup>-\<^sup>5\<close> of 0.130208, 0.254630, 0.156250
  and 0.138889, whatever the rounding of each floating-point operation does within the
  unit roundoff of binary64.
\<close>

theorem convert_bbox_example:
  assumes "round_to_nearest P"
  shows "\<exists>x y w h.
      convert_bbox P 100 200 (py_round P (100 + 300)) (py_round P (200 + 150)) 1920 1080
        = Inr (x, y, w, h)
      \<and> \<bar>x - 130208 / 10 ^ 6\<bar> \<le> 1 / 10 ^ 5
      \<and> \<bar>y - 254630 / 10 ^ 6\<bar> \<le> 1 / 10 ^ 5
      \<and> \<bar>w - 156250 / 10 ^ 6\<bar> \<le> 1 / 10 ^ 5
      \<and> \<bar>h - 138889 / 10 ^ 6\<bar> \<le> 1 / 10 ^ 5"
proof -
  define right where "right = py_round P (100 + 300)"
  define bottom where "bottom = py_round P (200 + 150)"
  define sx where "sx = py_round P (100 + right)"
  define sy where "sy = py_round P (200 + bottom)"
  define dw where "dw = py_round P (right - 100)"
  define dh where "dh = py_round P (bottom - 200)"
  define x where "x = py_round P (py_round P (sx / 2) / 1920)"
  define y where "y = py_round P (py_round P (sy / 2) / 1080)"
  define w where "w = py_round P (dw / 1920)"
  define h where "h = py_round P (dh / 1080)"
  note step = round_step [OF assms]
  note quot = round_div [OF assms]
  have "\<bar>(100 + 300) - (400::real)\<bar> \<le> 0" by simp
  from step [OF this] have r: "\<bar>right - 400\<bar> \<le> 1 / 10 ^ 6" by (simp add: right_def)
  have "\<bar>(200 + 150) - (350::real)\<bar> \<le> 0" by simp
  from step [OF this] have b: "\<bar>bottom - 350\<bar> \<le> 1 / 10 ^ 6" by (simp add: bottom_def)
  from r have "\<bar>(100 + right) - 500\<bar> \<le> 1 / 10 ^ 6" by linarith
  from step [OF this] have sx: "\<bar>sx - 500\<bar> \<le> 2 / 10 ^ 6" by (simp add: sx_def)
  from b have "\<bar>(200 + bottom) - 550\<bar> \<le> 1 / 10 ^ 6" by linarith
  from step [OF this] have sy: "\<bar>sy - 550\<bar> \<le> 2 / 10 ^ 6" by (simp add: sy_def)
  from r have "\<bar>(right - 100) - 300\<bar> \<le> 1 / 10 ^ 6" by linarith
  from step [OF this] have dw: "\<bar>dw - 300\<bar> \<le> 2 / 10 ^ 6" by (simp add: dw_def)
  from b have "\<bar>(bottom - 200) - 150\<bar> \<le> 1 / 10 ^ 6" by linarith
  from step [OF this] have dh: "\<bar>dh - 150\<bar> \<le> 2 / 10 ^ 6" by (simp add: dh_def)
  from quot [OF sx, of 2] have hx: "\<bar>py_round P (sx / 2) - 250\<bar> \<le> 2 / 10 ^ 6" by simp
  from quot [OF hx, of 1920] have x3: "\<bar>x - 250 / 1920\<bar> \<le> 2 / 10 ^ 6" by (simp add: x_def)
  from quot [OF sy, of 2] have hy: "\<bar>py_round P (sy / 2) - 275\<bar> \<le> 2 / 10 ^ 6" by simp
  from quot [OF hy, of 1080] have y3: "\<bar>y - 275 / 1080\<bar> \<le> 2 / 10 ^ 6" by (simp add: y_def)
  from quot [OF dw, of 1920] have w2: "\<bar>w - 300 / 1920\<bar> \<le> 2 / 10 ^ 6" by (simp add: w_def)
  from quot [OF dh, of 1080] have h2: "\<bar>h - 150 / 1080\<bar> \<le> 2 / 10 ^ 6" by (simp add: h_def)
  have res: "convert_bbox P 100 200 (py_round P (100 + 300)) (py_round P (200 + 150)) 1920 1080
      = Inr (x, y, w, h)"
    by (simp add: convert_bbox_def x_def y_def w_def h_def sx_def sy_def dw_def dh_def
        right_def bottom_def)
  have bx: "\<bar>x - 130208 / 10 ^ 6\<bar> \<le> 1 / 10 ^ 5" by (rule abs_shift [OF x3]) simp
  have by': "\<bar>y - 254630 / 10 ^ 6\<bar> \<le> 1 / 10 ^ 5" by (rule abs_shift [OF y3]) simp
  have bw: "\<bar>w - 156250 / 10 ^ 6\<bar> \<le> 1 / 10 ^ 5" by (rule abs_shift [OF w2]) simp
  have bh: "\<bar>h - 138889 / 10 ^ 6\<bar> \<le> 1 / 10 ^ 5" by (rule abs_shift [OF h2]) simp
  from res bx by' bw bh show ?thesis by (intro exI conjI)
qed

lemma cpython42_rounds: "round_to_nearest cpython42"
  by (simp add: round_to_nearest_def cpython42_def)

theorem convert_bbox_example_witness:
  "round_to_nearest cpython42
   \<and> convert_bbox cpython42 100 200 400 350 1920 1080
       = Inr (250 / 1920, 275 / 1080, 300 / 1920, 150 / 1080)
   \<and> (\<exists>x y w h.
      convert_bbox cpython42 100 200 (py_round cpython42 (100 + 300))
          (py_round cpython42 (200 + 150)) 1920 1080
        = Inr (x, y, w, h)
      \<and> \<bar>x - 130208 / 10 ^ 6\<bar> \<le> 1 / 10 ^ 5
      \<and> \<bar>y - 254630 / 10 ^ 6\<bar> \<le> 1 / 10 ^ 5
      \<and> \<bar>w - 156250 / 10 ^ 6\<bar> \<le> 1 / 10 ^ 5
      \<and> \<bar>h - 138889 / 10 ^ 6\<bar> \<le> 1 / 10 ^ 5)"
proof (intro conjI)
  show "round_to_nearest cpython42" by (rule cpython42_rounds)
  show "convert_bbox cpython42 100 200 400 350 1920 1080
       = Inr (250 / 1920, 275 / 1080, 300 / 1920, 150 / 1080)"
    by (simp add: convert_bbox_def cpython42_def)
  show "\<exists>x y w h.
      convert_bbox cpython42 100 200 (py_round cpython42 (100 + 300))
          (py_round cpython42 (200 + 150)) 1920 1080
        = Inr (x, y, w, h)
      \<and> \<bar>x - 130208 / 10 ^ 6\<bar> \<le> 1 / 10 ^ 5
      \<and> \<bar>y - 254630 / 10 ^ 6\<bar> \<le> 1 / 10 ^ 5
      \<and> \<bar>w - 156250 / 10 ^ 6\<bar> \<le> 1 / 10 ^ 5
      \<and> \<bar>h - 138889 / 10 ^ 6\<bar> \<le> 1 / 10 ^ 5"
    by (rule convert_bbox_example [OF cpython42_rounds])
qed

section \<open>Properties of one file and of the distribution table\<close>

text \<open>
  C10.  When the image of a file has been copied and its annotation file is missing, the
  \<^verbatim>\<open>open\<close> of line 69 raises; the handler of line 107 prints the failure and the
  loop goes on with the next file.  The copied image stays in the bucket: the file system
  after the file is the one before it plus the copy, nothing is written for the labels,
  and the table is as it was.
\<close>

theorem missing_annotation_keeps_image:
  assumes "w_files W (path_join img_dir [img_file]) = Some img"
    and "path_join img_dir [img_file] \<noteq> path_join dst_dir [destination, ''images'', img_file]"
    and "((w_files W)(path_join dst_dir [destination, ''images'', img_file] \<mapsto> img))
           (path_join ann_dir [replace ''.jpg'' ''.txt'' img_file]) = None"
  shows "process_file P img_dir ann_dir dst_dir destination img_file W =
           W\<lparr>w_files := (w_files W)(path_join dst_dir [destination, ''images'', img_file] \<mapsto> img),
             w_printed := w_printed W @
               [Failed img_file
                  (FileNotFoundError (path_join ann_dir [replace ''.jpg'' ''.txt'' img_file]))]\<rparr>
     \<and> w_files (process_file P img_dir ann_dir dst_dir destination img_file W)
           (path_join dst_dir [destination, ''images'', img_file]) = Some img
     \<and> w_dist_df (process_file P img_dir ann_dir dst_dir destination img_file W) = w_dist_df W
     \<and> process_files P img_dir ann_dir dst_dir destination (img_file # rest) W =
           process_files P img_dir ann_dir dst_dir destination rest
             (W\<lparr>w_files := (w_files W)(path_join dst_dir [destination, ''images'', img_file] \<mapsto> img),
                w_printed := w_printed W @
                  [Failed img_file
                     (FileNotFoundError (path_join ann_dir [replace ''.jpg'' ''.txt'' img_file]))]\<rparr>)"
proof -
  have eq: "process_file P img_dir ann_dir dst_dir destination img_file W =
           W\<lparr>w_files := (w_files W)(path_join dst_dir [destination, ''images'', img_file] \<mapsto> img),
             w_printed := w_printed W @
               [Failed img_file
                  (FileNotFoundError (path_join ann_dir [replace ''.jpg'' ''.txt'' img_file]))]\<rparr>"
    using assms by (simp add: process_file_def Let_def)
  show ?thesis by (simp add: eq)
qed

lemma replace_jpg: "replace ''.jpg'' ''.txt'' ''0000001.jpg'' = ''0000001.txt''"
  by (simp add: replace.simps)

lemma join_img_src: "path_join ''VisDrone2019/images/train'' [''0000001.jpg'']
    = ''VisDrone2019/images/train/0000001.jpg''"
  by (simp add: path_join_def join_step_def)

lemma join_img_dst: "path_join ''VisDrone'' [''client1'', ''images'', ''0000001.jpg'']
    = ''VisDrone/client1/images/0000001.jpg''"
  by (simp add: path_join_def join_step_def)

lemma join_ann_src: "path_join ''VisDrone2019/annotations/train'' [''0000001.txt'']
    = ''VisDrone2019/annotations/train/0000001.txt''"
  by (simp add: path_join_def join_step_def)

theorem missing_annotation_keeps_image_witness:
  "w_files image_only ''VisDrone/client1/images/0000001.jpg'' = None
   \<and> process_file cpython42 ''VisDrone2019/images/train'' ''VisDrone2019/annotations/train''
        ''VisDrone'' ''client1'' ''0000001.jpg'' image_only
     = image_only
        \<lparr>w_files := (w_files image_only)(''VisDrone/client1/images/0000001.jpg'' \<mapsto> [''JFIF'']),
         w_printed := [Failed ''0000001.jpg''
            (FileNotFoundError ''VisDrone2019/annotations/train/0000001.txt'')]\<rparr>
   \<and> w_files (process_file cpython42 ''VisDrone2019/images/train''
        ''VisDrone2019/annotations/train'' ''VisDrone'' ''client1'' ''0000001.jpg'' image_only)
        ''VisDrone/client1/images/0000001.jpg'' = Some [''JFIF'']"
proof -
  have h1: "w_files image_only (path_join ''VisDrone2019/images/train'' [''0000001.jpg''])
      = Some [''JFIF'']"
    by (simp add: join_img_src image_only_def)
  have h2: "path_join ''VisDrone2019/images/train'' [''0000001.jpg'']
      \<noteq> path_join ''VisDrone'' [''client1'', ''images'', ''0000001.jpg'']"
    by (simp add: join_img_src join_img_dst)
  have h3: "((w_files image_only)
        (path_join ''VisDrone'' [''client1'', ''images'', ''0000001.jpg''] \<mapsto> [''JFIF'']))
        (path_join ''VisDrone2019/annotations/train'' [replace ''.jpg'' ''.txt'' ''0000001.jpg''])
      = None"
    by (simp add: replace_jpg join_ann_src join_img_dst image_only_def)
  have pre: "w_files image_only ''VisDrone/client1/images/0000001.jpg'' = None"
    by (simp add: image_only_def)
  note inst = missing_annotation_keeps_image [OF h1 h2 h3, of cpython42 "[]"]
  from inst have a: "process_file cpython42 ''VisDrone2019/images/train''
        ''VisDrone2019/annotations/train'' ''VisDrone'' ''client1'' ''0000001.jpg'' image_only
     = image_only
        \<lparr>w_files := (w_files image_only)(''VisDrone/client1/images/0000001.jpg'' \<mapsto> [''JFIF'']),
         w_printed := [Failed ''0000001.jpg''
            (FileNotFoundError ''VisDrone2019/annotations/train/0000001.txt'')]\<rparr>"
    by (simp add: replace_jpg join_ann_src join_img_dst image_only_def)
  from inst have b: "w_files (process_file cpython42 ''VisDrone2019/images/train''
        ''VisDrone2019/annotations/train'' ''VisDrone'' ''client1'' ''0000001.jpg'' image_only)
        ''VisDrone/client1/images/0000001.jpg'' = Some [''JFIF'']"
    by (simp add: join_img_dst)
  from pre a b show ?thesis by (intro conjI)
qed

lemma cell_plus1_simps [simp]:
  "df_index (cell_plus1 df row col) = df_index df"
  "df_columns (cell_plus1 df row col) = df_columns df"
  "df_cell (cell_plus1 df row col) r c =
     df_cell df r c + (if r = row \<and> c = col then 1 else 0)"
  by (simp_all add: cell_plus1_def)

lemma loc_incr_eq:
  "loc_incr df row col =
     (if row \<notin> set (df_index df) then Inl (KeyError row)
      else if col \<notin> set (df_columns df) then Inl (KeyError col)
      else Inr (cell_plus1 df row col))"
  by (simp add: loc_incr_def cell_plus1_def)

lemma wf_table_plus1 [simp]: "wf_table (cell_plus1 df row col) = wf_table df"
  by (simp add: wf_table_def)

lemma class_row:
  assumes "wf_table df" "0 < k" "k < length (df_index df)"
  shows "df_index df ! k \<in> set (tl (df_index df))" "df_index df ! k \<noteq> ''Samples''"
proof -
  from assms obtain names where idx: "df_index df = ''Samples'' # names"
    by (cases "df_index df") (auto simp: wf_table_def)
  from assms(2) obtain j where k: "k = Suc j" by (cases k) auto
  with assms(3) idx have j: "j < length names" by simp
  with idx k show "df_index df ! k \<in> set (tl (df_index df))" by simp
  from assms(1) idx have "''Samples'' \<notin> set names" by (simp add: wf_table_def)
  with j idx k show "df_index df ! k \<noteq> ''Samples''" by (metis nth_Cons_Suc nth_mem)
qed

lemma samples_not_class: "wf_table df \<Longrightarrow> ''Samples'' \<notin> set (tl (df_index df))"
  by (cases "df_index df") (auto simp: wf_table_def)

lemma samples_row: "wf_table df \<Longrightarrow> ''Samples'' \<in> set (df_index df)"
  by (cases "df_index df") (auto simp: wf_table_def)

lemma sum_list_plus1:
  "distinct rows \<Longrightarrow>
   sum_list (map (\<lambda>r. f r + (if r = row \<and> c = col then 1 else 0)) rows)
     = sum_list (map f rows) + (if row \<in> set rows \<and> c = col then (1::int) else 0)"
  by (induction rows) auto

lemma class_total_plus1:
  assumes "wf_table df"
  shows "class_total (cell_plus1 df row col) c
     = class_total df c + (if row \<in> set (tl (df_index df)) \<and> c = col then 1 else 0)"
proof -
  from assms have "distinct (tl (df_index df))"
    by (simp add: wf_table_def distinct_tl)
  from sum_list_plus1 [OF this, where f = "\<lambda>r. df_cell df r c" and row = row and c = c and col = col]
  show ?thesis by (simp add: class_total_def)
qed

text \<open>What the loop does with its first line.\<close>

lemma process_lines_dropped:
  "\<not> surviving P line \<Longrightarrow>
   process_lines P destination (line # src) dst df = process_lines P destination src dst df"
  by (auto simp: surviving_def split: option.splits)

lemma process_lines_survivor:
  assumes "surviving P line" "wf_table df" "10 < length (df_index df)"
    "destination \<in> set (df_columns df)"
  shows "\<exists>written.
    process_lines P destination (line # src) dst df =
      process_lines P destination src (dst @ [written])
        (cell_plus1 (cell_plus1 df (df_index df ! class_of P line) destination)
           ''Samples'' destination)
    \<and> 0 < class_of P line \<and> class_of P line \<le> 10"
proof -
  from assms(1) obtain x_min y_min w h cls_id status where
    p: "parse_line P line = Some (x_min, y_min, w, h, cls_id, status)"
    and f: "status \<noteq> 0" "1 \<le> cls_id" "cls_id \<le> 10"
    by (auto simp: surviving_def split: option.splits)
  have c: "class_of P line = nat cls_id" using p by (simp add: class_of_def)
  from f assms(3) have k: "0 < nat cls_id" "nat cls_id < length (df_index df)" "nat cls_id \<le> 10"
    by simp_all
  have row: "df_index df ! nat cls_id \<in> set (df_index df)" using k(2) by simp
  obtain x y bw bh where cv:
    "convert_bbox P x_min y_min (py_round P (x_min + w)) (py_round P (y_min + h)) 1920 1080
       = Inr (x, y, bw, bh)"
    by (simp add: convert_bbox_def Let_def)
  have "process_lines P destination (line # src) dst df =
      process_lines P destination src (dst @ [yolo_line P cls_id x y bw bh])
        (cell_plus1 (cell_plus1 df (df_index df ! nat cls_id) destination)
           ''Samples'' destination)"
    using p f cv k(2) row assms(4) samples_row [OF assms(2)]
    by (simp add: loc_incr_eq)
  with c k show ?thesis by auto
qed

lemma balanced_zero:
  "balanced (get_distribution_dataframe names nclients)"
  by (simp add: balanced_def class_total_def get_distribution_dataframe_def list_all_iff)

lemma wf_table_zero:
  "distinct (''Samples'' # names) \<Longrightarrow> wf_table (get_distribution_dataframe names nclients)"
  by (simp add: wf_table_def get_distribution_dataframe_def)

text \<open>
  The two increments of a surviving line, taken together, keep every column's
  \<^verbatim>\<open>'Samples'\<close> cell equal to the sum of its class-name cells.
\<close>

lemma balanced_step:
  assumes "wf_table df" "balanced df" "row \<in> set (tl (df_index df))"
  shows "balanced (cell_plus1 (cell_plus1 df row col) ''Samples'' col)"
proof -
  from assms(1,3) have ne: "row \<noteq> ''Samples''" using samples_not_class by blast
  have wf1: "wf_table (cell_plus1 df row col)" using assms(1) by simp
  show ?thesis
    using assms(2,3) ne samples_not_class [OF assms(1)]
    by (simp add: balanced_def list_all_iff class_total_plus1 [OF wf1]
        class_total_plus1 [OF assms(1)])
qed

lemma process_lines_invariant:
  "wf_table df \<Longrightarrow> balanced df \<Longrightarrow>
   wf_table (fst (snd (process_lines P destination src dst df)))
   \<and> balanced (fst (snd (process_lines P destination src dst df)))"
proof (induction src arbitrary: dst df)
  case Nil
  then show ?case by simp
next
  case (Cons line src)
  show ?case
  proof (cases "parse_line P line")
    case None
    with Cons show ?thesis by simp
  next
    case (Some t)
    then obtain x_min y_min w h cls_id status where
      p: "parse_line P line = Some (x_min, y_min, w, h, cls_id, status)"
      by (cases t) auto
    show ?thesis
    proof (cases "status = 0 \<or> \<not> (1 \<le> cls_id \<and> cls_id \<le> 10)")
      case True
      with p Cons show ?thesis by simp
    next
      case False
      then have f: "status \<noteq> 0" "1 \<le> cls_id" "cls_id \<le> 10" by simp_all
      obtain x y bw bh where cv:
        "convert_bbox P x_min y_min (py_round P (x_min + w)) (py_round P (y_min + h)) 1920 1080
           = Inr (x, y, bw, bh)"
        by (simp add: convert_bbox_def Let_def)
      show ?thesis
      proof (cases "length (df_index df) \<le> nat cls_id")
        case True
        with p f cv Cons.prems show ?thesis by simp
      next
        case short: False
        then have k: "0 < nat cls_id" "nat cls_id < length (df_index df)" using f by simp_all
        have row: "df_index df ! nat cls_id \<in> set (df_index df)" using k(2) by simp
        note cls = class_row [OF Cons.prems(1) k]
        show ?thesis
        proof (cases "destination \<in> set (df_columns df)")
          case False
          with p f cv short row Cons.prems show ?thesis by (simp add: loc_incr_eq)
        next
          case True
          let ?df2 = "cell_plus1 (cell_plus1 df (df_index df ! nat cls_id) destination)
              ''Samples'' destination"
          have eq: "process_lines P destination (line # src) dst df =
              process_lines P destination src (dst @ [yolo_line P cls_id x y bw bh]) ?df2"
            using p f cv short row True samples_row [OF Cons.prems(1)]
            by (simp add: loc_incr_eq)
          have "wf_table ?df2" using Cons.prems(1) by simp
          moreover have "balanced ?df2"
            by (rule balanced_step [OF Cons.prems(1) Cons.prems(2) cls(1)])
          ultimately show ?thesis unfolding eq by (rule Cons.IH)
        qed
      qed
    qed
  qed
qed

lemma table_unchanged:
  "\<exists>content. df = fst (snd (process_lines P destination content [] df))"
  by (rule exI [of _ "[]"]) simp

lemma table_of_lines:
  "process_lines P destination src [] df = (dst, df', raised) \<Longrightarrow>
   \<exists>content. df' = fst (snd (process_lines P destination content [] df))"
  by (rule exI [of _ src]) simp

text \<open>
  One file changes the table only through one run of the line loop (over no line at all
  when the file is skipped before its annotation is read).
\<close>

lemma process_file_table:
  "\<exists>content. w_dist_df (process_file P img_dir ann_dir dst_dir destination img_file W)
        = fst (snd (process_lines P destination content [] (w_dist_df W)))"
  unfolding process_file_def Let_def
  by (auto split: option.splits prod.splits simp del: process_lines.simps
      intro: table_unchanged table_of_lines)

lemma process_file_invariant:
  assumes "wf_table (w_dist_df W)" "balanced (w_dist_df W)"
  shows "wf_table (w_dist_df (process_file P img_dir ann_dir dst_dir destination img_file W))
   \<and> balanced (w_dist_df (process_file P img_dir ann_dir dst_dir destination img_file W))"
proof -
  from process_file_table [of P img_dir ann_dir dst_dir destination img_file W]
  obtain content where
    "w_dist_df (process_file P img_dir ann_dir dst_dir destination img_file W)
       = fst (snd (process_lines P destination content [] (w_dist_df W)))" ..
  with process_lines_invariant [OF assms, of P destination content "[]"]
  show ?thesis by simp
qed

lemma process_files_invariant:
  "wf_table (w_dist_df W) \<Longrightarrow> balanced (w_dist_df W) \<Longrightarrow>
   wf_table (w_dist_df (process_files P img_dir ann_dir dst_dir destination bucket W))
   \<and> balanced (w_dist_df (process_files P img_dir ann_dir dst_dir destination bucket W))"
proof (induction bucket arbitrary: W)
  case Nil
  then show ?case by simp
next
  case (Cons img_file rest)
  from process_file_invariant [OF Cons.prems, of P img_dir ann_dir dst_dir destination img_file]
  have "wf_table (w_dist_df (process_file P img_dir ann_dir dst_dir destination img_file W))"
    "balanced (w_dist_df (process_file P img_dir ann_dir dst_dir destination img_file W))"
    by simp_all
  from Cons.IH [OF this] show ?case by simp
qed

lemma process_buckets_invariant:
  "wf_table (w_dist_df W) \<Longrightarrow> balanced (w_dist_df W) \<Longrightarrow>
   wf_table (w_dist_df (process_buckets P img_dir ann_dir dst_dir buckets W))
   \<and> balanced (w_dist_df (process_buckets P img_dir ann_dir dst_dir buckets W))"
proof (induction buckets arbitrary: W)
  case Nil
  then show ?case by simp
next
  case (Cons b rest)
  obtain destination bucket where b: "b = (destination, bucket)" by (cases b)
  from process_files_invariant [OF Cons.prems, of P img_dir ann_dir dst_dir destination bucket]
  have "wf_table (w_dist_df (process_files P img_dir ann_dir dst_dir destination bucket W))"
    "balanced (w_dist_df (process_files P img_dir ann_dir dst_dir destination bucket W))"
    by simp_all
  from Cons.IH [OF this] show ?case by (simp add: b)
qed

text \<open>What a run of the line loop adds to the table.\<close>

lemma process_lines_tally:
  assumes "wf_table df" "10 < length (df_index df)" "destination \<in> set (df_columns df)"
  shows "snd (snd (process_lines P destination src dst df)) = None
    \<and> length (fst (process_lines P destination src dst df))
        = length dst + length (filter (surviving P) src)
    \<and> df_index (fst (snd (process_lines P destination src dst df))) = df_index df
    \<and> df_columns (fst (snd (process_lines P destination src dst df))) = df_columns df
    \<and> df_cell (fst (snd (process_lines P destination src dst df))) ''Samples'' destination
        = df_cell df ''Samples'' destination + int (length (filter (surviving P) src))
    \<and> (\<forall>row. row \<noteq> ''Samples'' \<longrightarrow>
          df_cell (fst (snd (process_lines P destination src dst df))) row destination
            = df_cell df row destination
              + int (length (filter (\<lambda>line. surviving P line
                                      \<and> df_index df ! class_of P line = row) src)))
    \<and> (\<forall>row col. col \<noteq> destination \<longrightarrow>
          df_cell (fst (snd (process_lines P destination src dst df))) row col
            = df_cell df row col)"
  using assms
proof (induction src arbitrary: dst df)
  case Nil
  then show ?case by simp
next
  case (Cons line src)
  show ?case
  proof (cases "surviving P line")
    case False
    have eq: "process_lines P destination (line # src) dst df
                = process_lines P destination src dst df"
      by (rule process_lines_dropped [OF False])
    from Cons.IH [OF Cons.prems, of dst] False show ?thesis
      unfolding eq by simp
  next
    case True
    let ?row = "df_index df ! class_of P line"
    let ?df2 = "cell_plus1 (cell_plus1 df ?row destination) ''Samples'' destination"
    from process_lines_survivor [OF True Cons.prems, of src dst]
    obtain written where
      eq: "process_lines P destination (line # src) dst df =
             process_lines P destination src (dst @ [written]) ?df2"
      and k: "0 < class_of P line" "class_of P line \<le> 10"
      by blast
    from k Cons.prems(2) have "class_of P line < length (df_index df)" by simp
    from class_row [OF Cons.prems(1) k(1) this] have ne: "?row \<noteq> ''Samples''" by simp
    have "wf_table ?df2" "10 < length (df_index ?df2)" "destination \<in> set (df_columns ?df2)"
      using Cons.prems by simp_all
    from Cons.IH [OF this, of "dst @ [written]"] True ne show ?thesis
      unfolding eq by auto
  qed
qed

text \<open>
  A file whose image and annotation are both read: the table after the file is the table
  after the line loop over the annotation's lines.
\<close>

lemma process_file_reads_annotation:
  assumes "w_files W (path_join img_dir [img_file]) = Some img"
    and "path_join img_dir [img_file] \<noteq> path_join dst_dir [destination, ''images'', img_file]"
    and "((w_files W)(path_join dst_dir [destination, ''images'', img_file] \<mapsto> img))
           (path_join ann_dir [replace ''.jpg'' ''.txt'' img_file]) = Some content"
    and "path_join dst_dir [destination, ''labels'', replace ''.jpg'' ''.txt'' img_file]
           \<noteq> path_join ann_dir [replace ''.jpg'' ''.txt'' img_file]"
  shows "w_dist_df (process_file P img_dir ann_dir dst_dir destination img_file W)
           = fst (snd (process_lines P destination content [] (w_dist_df W)))"
  using assms by (simp add: process_file_def Let_def split: prod.splits)

text \<open>
  C4.  The \<^verbatim>\<open>'Samples'\<close> increment of line 105 is inside the loop over the lines, so it
  is done for every surviving line and not once per file.  For a table whose row labels
  are \<^verbatim>\<open>'Samples'\<close> followed by at least ten class names, all different from one
  another and from \<^verbatim>\<open>'Samples'\<close>, and which has the bucket's column; and for a file
  whose image and annotation both exist, whose image is not copied onto itself and whose
  label file is not its annotation file: the \<^verbatim>\<open>'Samples'\<close> cell of the bucket grows
  by the number of surviving lines of the file (by nothing for a file without one), the
  cell of each class name by the number of surviving lines of that class, and the other
  columns are left as they were.
\<close>

theorem samples_counts_surviving_lines:
  assumes "wf_table (w_dist_df W)"
    and "10 < length (df_index (w_dist_df W))"
    and "destination \<in> set (df_columns (w_dist_df W))"
    and "w_files W (path_join img_dir [img_file]) = Some img"
    and "path_join img_dir [img_file] \<noteq> path_join dst_dir [destination, ''images'', img_file]"
    and "((w_files W)(path_join dst_dir [destination, ''images'', img_file] \<mapsto> img))
           (path_join ann_dir [replace ''.jpg'' ''.txt'' img_file]) = Some content"
    and "path_join dst_dir [destination, ''labels'', replace ''.jpg'' ''.txt'' img_file]
           \<noteq> path_join ann_dir [replace ''.jpg'' ''.txt'' img_file]"
  shows "df_cell (w_dist_df (process_file P img_dir ann_dir dst_dir destination img_file W))
             ''Samples'' destination
           = df_cell (w_dist_df W) ''Samples'' destination
             + int (length (filter (surviving P) content))
     \<and> (\<forall>row. row \<noteq> ''Samples'' \<longrightarrow>
           df_cell (w_dist_df (process_file P img_dir ann_dir dst_dir destination img_file W))
               row destination
             = df_cell (w_dist_df W) row destination
               + int (length (filter (\<lambda>line. surviving P line
                         \<and> df_index (w_dist_df W) ! class_of P line = row) content)))
     \<and> (\<forall>row col. col \<noteq> destination \<longrightarrow>
           df_cell (w_dist_df (process_file P img_dir ann_dir dst_dir destination img_file W))
               row col
             = df_cell (w_dist_df W) row col)"
proof -
  note eq = process_file_reads_annotation [OF assms(4-7), of P]
  from process_lines_tally [OF assms(1-3), of P content "[]"]
  show ?thesis unfolding eq by simp
qed

lemma parse_van:
  "parse_line cpython42 ''406,119,265,70,0,5,1,0'' = Some (406, 119, 265, 70, 5, 1)"
  by (subst parse_plain) (simp_all add: is_space_def cpython42_parsers digit_val_def)

lemma surviving_car: "surviving cpython42 ''684,8,273,116,0,4,1,0''"
  by (simp add: surviving_def parse_example)

lemma surviving_ignored: "\<not> surviving cpython42 ''684,8,273,116,0,4,0,0''"
  by (simp add: surviving_def parse_status0)

lemma surviving_van: "surviving cpython42 ''406,119,265,70,0,5,1,0''"
  by (simp add: surviving_def parse_van)

lemma class_of_car: "class_of cpython42 ''684,8,273,116,0,4,1,0'' = 4"
  by (simp add: class_of_def parse_example)

lemma class_of_van: "class_of cpython42 ''406,119,265,70,0,5,1,0'' = 5"
  by (simp add: class_of_def parse_van)

lemma join_label_dst: "path_join ''VisDrone'' [''client1'', ''labels'', ''0000001.txt'']
    = ''VisDrone/client1/labels/0000001.txt''"
  by (simp add: path_join_def join_step_def)

lemma distinct_visdrone: "distinct (''Samples'' # visdrone_names)"
  by (simp add: visdrone_names_def)

lemma visdrone_index:
  "df_index (get_distribution_dataframe visdrone_names nclients) = ''Samples'' # visdrone_names"
  by (simp add: get_distribution_dataframe_def)

lemma client1_column:
  "''client1'' \<in> set (df_columns (get_distribution_dataframe names 1))"
  by (simp add: get_distribution_dataframe_def str_nat_1 upt_rec)

lemma zero_cells: "df_cell (get_distribution_dataframe names nclients) row col = 0"
  by (simp add: get_distribution_dataframe_def)

lemma annotated_image_table:
  "w_dist_df (process_file cpython42 ''VisDrone2019/images/train''
      ''VisDrone2019/annotations/train'' ''VisDrone'' ''client1'' ''0000001.jpg''
      annotated_image)
   = fst (snd (process_lines cpython42 ''client1''
        [''684,8,273,116,0,4,1,0'', ''684,8,273,116,0,4,0,0'', ''406,119,265,70,0,5,1,0'']
        [] (get_distribution_dataframe visdrone_names 1)))"
proof -
  have "w_dist_df (process_file cpython42 ''VisDrone2019/images/train''
      ''VisDrone2019/annotations/train'' ''VisDrone'' ''client1'' ''0000001.jpg''
      annotated_image)
   = fst (snd (process_lines cpython42 ''client1''
        [''684,8,273,116,0,4,1,0'', ''684,8,273,116,0,4,0,0'', ''406,119,265,70,0,5,1,0'']
        [] (w_dist_df annotated_image)))"
    by (rule process_file_reads_annotation)
      (simp_all add: annotated_image_def replace_jpg join_img_src join_img_dst join_ann_src
        join_label_dst)
  then show ?thesis by (simp add: annotated_image_def)
qed

text \<open>
  One file with two surviving lines (and one filtered line): the \<^verbatim>\<open>'Samples'\<close> cell of
  its bucket goes from 0 to 2, not to 1.
\<close>

theorem samples_once_per_file_counterexample:
  "df_cell (w_dist_df annotated_image) ''Samples'' ''client1'' = 0
   \<and> df_cell (w_dist_df (process_file cpython42 ''VisDrone2019/images/train''
        ''VisDrone2019/annotations/train'' ''VisDrone'' ''client1'' ''0000001.jpg''
        annotated_image)) ''Samples'' ''client1'' = 2"
proof -
  have wf: "wf_table (get_distribution_dataframe visdrone_names 1)"
    by (rule wf_table_zero [OF distinct_visdrone])
  have len: "10 < length (df_index (get_distribution_dataframe visdrone_names 1))"
    by (simp add: get_distribution_dataframe_def visdrone_names_def)
  from process_lines_tally [OF wf len client1_column, of cpython42
      "[''684,8,273,116,0,4,1,0'', ''684,8,273,116,0,4,0,0'', ''406,119,265,70,0,5,1,0'']" "[]"]
  have "df_cell (fst (snd (process_lines cpython42 ''client1''
        [''684,8,273,116,0,4,1,0'', ''684,8,273,116,0,4,0,0'', ''406,119,265,70,0,5,1,0'']
        [] (get_distribution_dataframe visdrone_names 1)))) ''Samples'' ''client1'' = 2"
    by (simp add: zero_cells surviving_car surviving_ignored surviving_van
        del: process_lines.simps)
  then show ?thesis by (simp add: annotated_image_table) (simp add: annotated_image_def zero_cells)
qed

theorem samples_counts_surviving_lines_witness:
  "wf_table (w_dist_df annotated_image)
   \<and> 10 < length (df_index (w_dist_df annotated_image))
   \<and> ''client1'' \<in> set (df_columns (w_dist_df annotated_image))
   \<and> df_cell (w_dist_df (process_file cpython42 ''VisDrone2019/images/train''
        ''VisDrone2019/annotations/train'' ''VisDrone'' ''client1'' ''0000001.jpg''
        annotated_image)) ''car'' ''client1'' = 1
   \<and> df_cell (w_dist_df (process_file cpython42 ''VisDrone2019/images/train''
        ''VisDrone2019/annotations/train'' ''VisDrone'' ''client1'' ''0000001.jpg''
        annotated_image)) ''van'' ''client1'' = 1
   \<and> df_cell (w_dist_df (process_file cpython42 ''VisDrone2019/images/train''
        ''VisDrone2019/annotations/train'' ''VisDrone'' ''client1'' ''0000001.jpg''
        annotated_image)) ''bus'' ''client1'' = 0
   \<and> df_cell (w_dist_df (process_file cpython42 ''VisDrone2019/images/train''
        ''VisDrone2019/annotations/train'' ''VisDrone'' ''client1'' ''0000001.jpg''
        annotated_image)) ''Samples'' ''server'' = 0"
proof -
  have tbl: "w_dist_df annotated_image = get_distribution_dataframe visdrone_names 1"
    by (simp add: annotated_image_def)
  have wf: "wf_table (w_dist_df annotated_image)"
    unfolding tbl by (rule wf_table_zero [OF distinct_visdrone])
  have len: "10 < length (df_index (w_dist_df annotated_image))"
    unfolding tbl by (simp add: get_distribution_dataframe_def visdrone_names_def)
  have col: "''client1'' \<in> set (df_columns (w_dist_df annotated_image))"
    unfolding tbl by (rule client1_column)
  have h4: "w_files annotated_image (path_join ''VisDrone2019/images/train'' [''0000001.jpg''])
      = Some [''JFIF'']"
    by (simp add: annotated_image_def join_img_src)
  have h5: "path_join ''VisDrone2019/images/train'' [''0000001.jpg'']
      \<noteq> path_join ''VisDrone'' [''client1'', ''images'', ''0000001.jpg'']"
    by (simp add: join_img_src join_img_dst)
  have h6: "((w_files annotated_image)
        (path_join ''VisDrone'' [''client1'', ''images'', ''0000001.jpg''] \<mapsto> [''JFIF'']))
        (path_join ''VisDrone2019/annotations/train'' [replace ''.jpg'' ''.txt'' ''0000001.jpg''])
      = Some [''684,8,273,116,0,4,1,0'', ''684,8,273,116,0,4,0,0'', ''406,119,265,70,0,5,1,0'']"
    by (simp add: annotated_image_def replace_jpg join_img_dst join_ann_src)
  have h7: "path_join ''VisDrone'' [''client1'', ''labels'', replace ''.jpg'' ''.txt'' ''0000001.jpg'']
      \<noteq> path_join ''VisDrone2019/annotations/train'' [replace ''.jpg'' ''.txt'' ''0000001.jpg'']"
    by (simp add: replace_jpg join_label_dst join_ann_src)
  note inst = samples_counts_surviving_lines [OF wf len col h4 h5 h6 h7, of cpython42]
  have idx: "df_index (w_dist_df annotated_image) ! 4 = ''car''"
    "df_index (w_dist_df annotated_image) ! 5 = ''van''"
    unfolding tbl by (simp_all add: get_distribution_dataframe_def visdrone_names_def)
  have zero: "df_cell (w_dist_df annotated_image) row c = 0" for row c
    unfolding tbl by (rule zero_cells)
  from inst have car: "df_cell (w_dist_df (process_file cpython42 ''VisDrone2019/images/train''
        ''VisDrone2019/annotations/train'' ''VisDrone'' ''client1'' ''0000001.jpg''
        annotated_image)) ''car'' ''client1'' = 1"
    by (simp add: zero idx surviving_car surviving_ignored surviving_van class_of_car class_of_van)
  from inst have van: "df_cell (w_dist_df (process_file cpython42 ''VisDrone2019/images/train''
        ''VisDrone2019/annotations/train'' ''VisDrone'' ''client1'' ''0000001.jpg''
        annotated_image)) ''van'' ''client1'' = 1"
    by (simp add: zero idx surviving_car surviving_ignored surviving_van class_of_car class_of_van)
  from inst have bus: "df_cell (w_dist_df (process_file cpython42 ''VisDrone2019/images/train''
        ''VisDrone2019/annotations/train'' ''VisDrone'' ''client1'' ''0000001.jpg''
        annotated_image)) ''bus'' ''client1'' = 0"
    by (simp add: zero idx surviving_car surviving_ignored surviving_van class_of_car class_of_van)
  from inst have server: "df_cell (w_dist_df (process_file cpython42 ''VisDrone2019/images/train''
        ''VisDrone2019/annotations/train'' ''VisDrone'' ''client1'' ''0000001.jpg''
        annotated_image)) ''Samples'' ''server'' = 0"
    by (simp add: zero)
  from wf len col car van bus server show ?thesis by (intro conjI)
qed

text \<open>
  The table between the two increments of a surviving line, and the table after a
  surviving line when nothing is asked of the row labels.
\<close>

lemma first_increment:
  "loc_incr (get_distribution_dataframe visdrone_names 1)
      (df_index (get_distribution_dataframe visdrone_names 1) ! nat 4) ''client1''
   = Inr (cell_plus1 (get_distribution_dataframe visdrone_names 1) ''car'' ''client1'')"
proof -
  have "df_index (get_distribution_dataframe visdrone_names 1) ! nat 4 = ''car''"
    by (simp add: get_distribution_dataframe_def visdrone_names_def)
  moreover have "''car'' \<in> set (df_index (get_distribution_dataframe visdrone_names 1))"
    by (simp add: get_distribution_dataframe_def visdrone_names_def)
  ultimately show ?thesis by (simp add: loc_incr_eq client1_column)
qed

lemma one_behind:
  "df_cell (cell_plus1 (get_distribution_dataframe visdrone_names 1) ''car'' ''client1'')
      ''Samples'' ''client1'' = 0"
  "class_total (cell_plus1 (get_distribution_dataframe visdrone_names 1) ''car'' ''client1'')
      ''client1'' = 1"
proof -
  show "df_cell (cell_plus1 (get_distribution_dataframe visdrone_names 1) ''car'' ''client1'')
      ''Samples'' ''client1'' = 0"
    by (simp add: zero_cells)
  have wf: "wf_table (get_distribution_dataframe visdrone_names 1)"
    by (rule wf_table_zero [OF distinct_visdrone])
  have z: "class_total (get_distribution_dataframe visdrone_names 1) ''client1'' = 0"
    by (simp add: class_total_def zero_cells)
  have "''car'' \<in> set (tl (df_index (get_distribution_dataframe visdrone_names 1)))"
    by (simp add: get_distribution_dataframe_def visdrone_names_def)
  then show "class_total (cell_plus1 (get_distribution_dataframe visdrone_names 1)
      ''car'' ''client1'') ''client1'' = 1"
    by (simp add: class_total_plus1 [OF wf] z)
qed

lemma unbalanced_column:
  "col \<in> set (df_columns df) \<Longrightarrow> df_cell df ''Samples'' col \<noteq> class_total df col
     \<Longrightarrow> \<not> balanced df"
  by (auto simp: balanced_def list_all_iff)

lemma parse_pedestrian:
  "parse_line cpython42 ''684,8,273,116,0,1,1,0'' = Some (684, 8, 273, 116, 1, 1)"
  by (subst parse_plain) (simp_all add: is_space_def cpython42_parsers digit_val_def)

lemma process_lines_one_survivor:
  assumes "parse_line P line = Some (x_min, y_min, w, h, cls_id, status)"
    and "status \<noteq> 0" "1 \<le> cls_id" "cls_id \<le> 10"
    and "nat cls_id < length (df_index df)"
    and "destination \<in> set (df_columns df)"
    and "''Samples'' \<in> set (df_index df)"
  shows "fst (snd (process_lines P destination [line] dst df))
     = cell_plus1 (cell_plus1 df (df_index df ! nat cls_id) destination) ''Samples'' destination"
proof -
  have row: "df_index df ! nat cls_id \<in> set (df_index df)" using assms(5) by simp
  obtain x y bw bh where cv:
    "convert_bbox P x_min y_min (py_round P (x_min + w)) (py_round P (y_min + h)) 1920 1080
       = Inr (x, y, bw, bh)"
    by (simp add: convert_bbox_def Let_def)
  show ?thesis
    using assms cv row by (simp add: loc_incr_eq)
qed

lemma twice_named_table:
  "fst (snd (process_lines cpython42 ''client1'' [''684,8,273,116,0,1,1,0''] []
        (get_distribution_dataframe [''a'', ''a''] 1)))
   = cell_plus1 (cell_plus1 (get_distribution_dataframe [''a'', ''a''] 1) ''a'' ''client1'')
       ''Samples'' ''client1''"
proof -
  have idx: "df_index (get_distribution_dataframe [''a'', ''a''] 1) = [''Samples'', ''a'', ''a'']"
    by (simp add: get_distribution_dataframe_def)
  from process_lines_one_survivor [OF parse_pedestrian, of "get_distribution_dataframe [''a'', ''a''] 1"
      "''client1''" "[]"]
  show ?thesis by (simp add: idx client1_column)
qed

text \<open>
  The equality of the claim fails at two places.  Between the two increments of the first
  surviving line of a run (here a car, into the all-zero table of the ten VisDrone
  names) the bucket's \<^verbatim>\<open>'Samples'\<close> cell is still 0 and its class-name cells sum to 1.
  With a class-name list that names a class twice, the class increment of one surviving
  line counts in both rows of that name: after the line \<^verbatim>\<open>'Samples'\<close> is 1 and the
  class-name cells sum to 2.
\<close>

theorem samples_behind_class_sum_counterexample:
  "parse_line cpython42 ''684,8,273,116,0,4,1,0'' = Some (684, 8, 273, 116, 4, 1)
   \<and> loc_incr (get_distribution_dataframe visdrone_names 1)
        (df_index (get_distribution_dataframe visdrone_names 1) ! nat 4) ''client1''
       = Inr (cell_plus1 (get_distribution_dataframe visdrone_names 1) ''car'' ''client1'')
   \<and> df_cell (cell_plus1 (get_distribution_dataframe visdrone_names 1) ''car'' ''client1'')
        ''Samples'' ''client1'' = 0
   \<and> class_total (cell_plus1 (get_distribution_dataframe visdrone_names 1) ''car'' ''client1'')
        ''client1'' = 1
   \<and> \<not> balanced (cell_plus1 (get_distribution_dataframe visdrone_names 1) ''car'' ''client1'')
   \<and> df_cell (fst (snd (process_lines cpython42 ''client1'' [''684,8,273,116,0,1,1,0''] []
        (get_distribution_dataframe [''a'', ''a''] 1)))) ''Samples'' ''client1'' = 1
   \<and> class_total (fst (snd (process_lines cpython42 ''client1'' [''684,8,273,116,0,1,1,0''] []
        (get_distribution_dataframe [''a'', ''a''] 1)))) ''client1'' = 2
   \<and> \<not> balanced (fst (snd (process_lines cpython42 ''client1'' [''684,8,273,116,0,1,1,0''] []
        (get_distribution_dataframe [''a'', ''a''] 1))))"
proof -
  have col: "''client1'' \<in> set (df_columns
      (cell_plus1 (get_distribution_dataframe visdrone_names 1) ''car'' ''client1''))"
    by (simp add: client1_column)
  have a: "\<not> balanced (cell_plus1 (get_distribution_dataframe visdrone_names 1)
      ''car'' ''client1'')"
    by (rule unbalanced_column [OF col]) (simp add: one_behind(2) zero_cells)
  have s: "df_cell (fst (snd (process_lines cpython42 ''client1'' [''684,8,273,116,0,1,1,0''] []
        (get_distribution_dataframe [''a'', ''a''] 1)))) ''Samples'' ''client1'' = 1"
    unfolding twice_named_table by (simp add: zero_cells)
  have t: "class_total (fst (snd (process_lines cpython42 ''client1''
        [''684,8,273,116,0,1,1,0''] []
        (get_distribution_dataframe [''a'', ''a''] 1)))) ''client1'' = 2"
    unfolding twice_named_table
    by (simp add: class_total_def zero_cells) (simp add: get_distribution_dataframe_def)
  have col2: "''client1'' \<in> set (df_columns (fst (snd (process_lines cpython42 ''client1''
        [''684,8,273,116,0,1,1,0''] [] (get_distribution_dataframe [''a'', ''a''] 1)))))"
    unfolding twice_named_table by (simp add: client1_column)
  have b: "\<not> balanced (fst (snd (process_lines cpython42 ''client1''
        [''684,8,273,116,0,1,1,0''] [] (get_distribution_dataframe [''a'', ''a''] 1))))"
    by (rule unbalanced_column [OF col2]) (simp add: s t del: process_lines.simps)
  from parse_example first_increment one_behind a s t b show ?thesis by (intro conjI)
qed

text \<open>
  C9.  The equality holds between annotation lines, for class names that are all
  different from one another and from \<^verbatim>\<open>'Samples'\<close>.  Starting from the all-zero table
  that \<^verbatim>\<open>get_distribution_dataframe\<close> builds from such a list, after any number of
  buckets, then any number of files of the next bucket, then any number of lines of the
  next file, every column's \<^verbatim>\<open>'Samples'\<close> cell equals the sum of the column's
  class-name cells; this holds too when the line loop is left by an exception.  So does
  it in the table that \<^verbatim>\<open>process_split\<close> ends with.
\<close>

theorem samples_equals_class_sum:
  assumes "distinct (''Samples'' # names)"
  shows "balanced (fst (snd (process_lines P destination src dst
           (w_dist_df (process_files P img_dir ann_dir dst_dir current bucket
              (process_buckets P img_dir ann_dir dst_dir finished
                 \<lparr>w_files = fs, w_dist_df = get_distribution_dataframe names nclients,
                  w_printed = []\<rparr>))))))
     \<and> (\<forall>W g'. process_split P g listdir fs (Some names) src_dir dst_dir subset_name nclients
                  is_train = Inr (W, g') \<longrightarrow> balanced (w_dist_df W))"
proof -
  have start: "wf_table (w_dist_df \<lparr>w_files = fs,
        w_dist_df = get_distribution_dataframe names nclients, w_printed = []\<rparr>)"
    "balanced (w_dist_df \<lparr>w_files = fs,
        w_dist_df = get_distribution_dataframe names nclients, w_printed = []\<rparr>)"
    using assms by (simp_all add: wf_table_zero balanced_zero)
  have buckets: "wf_table (w_dist_df (process_buckets P i a d bs \<lparr>w_files = fs,
        w_dist_df = get_distribution_dataframe names nclients, w_printed = []\<rparr>))
     \<and> balanced (w_dist_df (process_buckets P i a d bs \<lparr>w_files = fs,
        w_dist_df = get_distribution_dataframe names nclients, w_printed = []\<rparr>))" for i a d bs
    by (rule process_buckets_invariant [OF start])
  from buckets [of img_dir ann_dir dst_dir finished]
  have "wf_table (w_dist_df (process_files P img_dir ann_dir dst_dir current bucket
              (process_buckets P img_dir ann_dir dst_dir finished
                 \<lparr>w_files = fs, w_dist_df = get_distribution_dataframe names nclients,
                  w_printed = []\<rparr>)))
     \<and> balanced (w_dist_df (process_files P img_dir ann_dir dst_dir current bucket
              (process_buckets P img_dir ann_dir dst_dir finished
                 \<lparr>w_files = fs, w_dist_df = get_distribution_dataframe names nclients,
                  w_printed = []\<rparr>)))"
    by (intro process_files_invariant) simp_all
  then have first: "balanced (fst (snd (process_lines P destination src dst
           (w_dist_df (process_files P img_dir ann_dir dst_dir current bucket
              (process_buckets P img_dir ann_dir dst_dir finished
                 \<lparr>w_files = fs, w_dist_df = get_distribution_dataframe names nclients,
                  w_printed = []\<rparr>))))))"
    using process_lines_invariant by blast
  have second: "balanced (w_dist_df W)"
    if "process_split P g listdir fs (Some names) src_dir dst_dir subset_name nclients
          is_train = Inr (W, g')" for W g'
    using that buckets
    by (auto simp: process_split_def Let_def split: option.splits if_splits sum.splits)
  from first second show ?thesis by blast
qed

theorem samples_equals_class_sum_witness:
  "distinct (''Samples'' # visdrone_names)
   \<and> balanced (fst (snd (process_lines cpython42 ''client1''
        [''684,8,273,116,0,4,1,0'', ''406,119,265,70,0,5,1,0''] []
        (get_distribution_dataframe visdrone_names 1))))"
proof -
  from samples_equals_class_sum [OF distinct_visdrone, of cpython42 "''client1''"
      "[''684,8,273,116,0,4,1,0'', ''406,119,265,70,0,5,1,0'']" "[]"
      "''VisDrone2019/images/train''" "''VisDrone2019/annotations/train''" "''VisDrone''"
      "''client1''" "[]" "[]" "Map.empty" 1]
  have "balanced (fst (snd (process_lines cpython42 ''client1''
        [''684,8,273,116,0,4,1,0'', ''406,119,265,70,0,5,1,0''] []
        (get_distribution_dataframe visdrone_names 1))))"
    by (simp del: process_lines.simps)
  with distinct_visdrone show ?thesis by (intro conjI)
qed

end
